theory Spec2Isabelle
  imports Main "HOL-Library.AList"
begin

section \<open>JavaScript values\<close>

text \<open>
  The bridge (\<^verbatim>\<open>chrome/content/zotero/xpcom/citeprocRsBridge.js\<close>) is dynamically typed:
  it tests values for truthiness, turns identifiers into strings with template literals and
  reads and writes object properties by key. A JavaScript object is the list of its
  properties in insertion order, each a name with a value; a property that is not there
  reads as \<open>undefined\<close>.
  Numbers are the integer-valued ones (item identifiers, note indices) and \<open>NaN\<close>, which
  \<open>parseInt\<close> returns for a string without digits; \<open>JNum 0\<close> stands for both zeros.
\<close>

datatype jsval =
    JUndefined
  | JNull
  | JBool bool
  | JNum int
  | JNaN
  | JStr string
  | JArr "jsval list"
  | JObj "(string \<times> jsval) list"

type_synonym jsobj = "(string \<times> jsval) list"

text \<open>\<open>ToBoolean\<close>: what \<^verbatim>\<open>if (v)\<close> and \<^verbatim>\<open>!v\<close> test.\<close>

fun truthy :: "jsval \<Rightarrow> bool" where
  "truthy JUndefined = False"
| "truthy JNull = False"
| "truthy (JBool b) = b"
| "truthy (JNum n) = (n \<noteq> 0)"
| "truthy JNaN = False"
| "truthy (JStr s) = (s \<noteq> [])"
| "truthy (JArr xs) = True"
| "truthy (JObj obj) = True"

text \<open>Property read \<^verbatim>\<open>obj.key\<close> and \<^verbatim>\<open>obj[key]\<close> on an object.\<close>

definition getProp :: "jsobj \<Rightarrow> string \<Rightarrow> jsval" where
  "getProp obj key = (case map_of obj key of None \<Rightarrow> JUndefined | Some v \<Rightarrow> v)"

text \<open>
  Property write \<^verbatim>\<open>obj[key] = v\<close>: an existing property keeps its place, a new one goes
  to the end.
\<close>

definition setProp :: "jsobj \<Rightarrow> string \<Rightarrow> jsval \<Rightarrow> jsobj" where
  "setProp obj key v = AList.update key v obj"

text \<open>
  \<^verbatim>\<open>Object.assign(target, source)\<close>: every property of the source is written to the
  target, in the source's order.
\<close>

definition assign :: "jsobj \<Rightarrow> jsobj \<Rightarrow> jsobj" where
  "assign target source = fold (\<lambda>(key, v) obj. setProp obj key v) source target"

text \<open>
  Property read on a truthy value of any type, for a key that no primitive wrapper and no
  array defines (the bridge reads \<^verbatim>\<open>markupPre\<close> and \<^verbatim>\<open>markupPost\<close> this way).
\<close>

fun getMember :: "jsval \<Rightarrow> string \<Rightarrow> jsval" where
  "getMember (JObj obj) key = getProp obj key"
| "getMember v key = JUndefined"

text \<open>\<^verbatim>\<open>a && a.key\<close>: the left operand when it is falsy, the property otherwise.\<close>

definition andMember :: "jsval \<Rightarrow> string \<Rightarrow> jsval" where
  "andMember a key = (if truthy a then getMember a key else a)"

subsection \<open>String conversion\<close>

definition digitChar :: "nat \<Rightarrow> char" where
  "digitChar d = ''0123456789'' ! d"

fun decimal :: "nat \<Rightarrow> string" where
  "decimal n = (if n < 10 then [digitChar n] else decimal (n div 10) @ [digitChar (n mod 10)])"

declare decimal.simps [simp del]

definition joinComma :: "string list \<Rightarrow> string" where
  "joinComma ss = (case ss of [] \<Rightarrow> [] | s # rest \<Rightarrow> foldl (\<lambda>acc t. acc @ '','' @ t) s rest)"

text \<open>
  \<open>ToString\<close>, which a template literal \<^verbatim>\<open>`${v}`\<close> applies. An array joins its elements
  with commas, \<open>undefined\<close> and \<open>null\<close> elements giving the empty string; a plain object
  gives \<^verbatim>\<open>[object Object]\<close>.
\<close>

fun toString :: "jsval \<Rightarrow> string" where
  "toString JUndefined = ''undefined''"
| "toString JNull = ''null''"
| "toString (JBool b) = (if b then ''true'' else ''false'')"
| "toString (JNum n) = (if n < 0 then ''-'' @ decimal (nat (- n)) else decimal (nat n))"
| "toString JNaN = ''NaN''"
| "toString (JStr s) = s"
| "toString (JArr xs) =
     joinComma (map (\<lambda>x. if x = JUndefined \<or> x = JNull then [] else toString x) xs)"
| "toString (JObj obj) = ''[object Object]''"

subsection \<open>parseInt\<close>

text \<open>
  \<^verbatim>\<open>parseInt(s)\<close> without a radix: leading white space is skipped, a sign is read, a
  \<^verbatim>\<open>0x\<close> prefix selects base 16, and the longest run of digits is the value; no digit
  gives \<open>NaN\<close>. A character is a code unit below 256, and white space is the part of the
  language's set there: tab, line feed, vertical tab, form feed, carriage return, space
  and the no-break space.
\<close>

definition isWhiteSpace :: "char \<Rightarrow> bool" where
  "isWhiteSpace c = (of_char c \<in> {9, 10, 11, 12, 13, 32, 160 :: nat})"

definition digitValue :: "nat \<Rightarrow> char \<Rightarrow> nat option" where
  "digitValue radix c =
     (let n = (of_char c :: nat);
          d = (if 48 \<le> n \<and> n \<le> 57 then Some (n - 48)
               else if 97 \<le> n \<and> n \<le> 122 then Some (n - 87)
               else if 65 \<le> n \<and> n \<le> 90 then Some (n - 55)
               else None)
      in case d of None \<Rightarrow> None | Some v \<Rightarrow> if v < radix then Some v else None)"

definition stripSign :: "string \<Rightarrow> int \<times> string" where
  "stripSign s =
     (case s of
        [] \<Rightarrow> (1, s)
      | c # rest \<Rightarrow> if c = CHR ''-'' then (- 1, rest)
                    else if c = CHR ''+'' then (1, rest) else (1, s))"

definition stripPrefix :: "string \<Rightarrow> nat \<times> string" where
  "stripPrefix s =
     (case s of
        c # x # rest \<Rightarrow>
          if c = CHR ''0'' \<and> (x = CHR ''x'' \<or> x = CHR ''X'') then (16, rest) else (10, s)
      | _ \<Rightarrow> (10, s))"

definition parseInt :: "string \<Rightarrow> jsval" where
  "parseInt s =
     (let (sign, s1) = stripSign (dropWhile isWhiteSpace s);
          (radix, s2) = stripPrefix s1;
          z = takeWhile (\<lambda>c. digitValue radix c \<noteq> None) s2
      in if z = [] then JNaN
         else JNum (sign * int (foldl (\<lambda>acc c. case digitValue radix c of
                                              Some d \<Rightarrow> acc * radix + d
                                            | None \<Rightarrow> acc) 0 z)))"

section \<open>The data the bridge exchanges\<close>

text \<open>
  A citation of the application: \<^verbatim>\<open>{citationID, citationItems, properties: {noteIndex}}\<close>.
  A cited item is an object with \<^verbatim>\<open>id\<close> and the optional modifiers.
\<close>

record citation =
  citationID :: jsval
  citationItems :: "jsobj list"
  properties :: jsobj

text \<open>
  A cluster as the bridge builds it: \<^verbatim>\<open>{id, cites}\<close> for an insertion and \<^verbatim>\<open>{cites}\<close>,
  without the key \<^verbatim>\<open>id\<close>, for a preview. A cite is an object.
\<close>

record cluster =
  cluster_id :: "jsval option"
  cites :: "jsobj list"

text \<open>An entry of the document-wide order: \<^verbatim>\<open>{id, note}\<close>, either key may be missing.\<close>

record clusterOrder =
  order_id :: "jsval option"
  order_note :: "jsval option"

text \<open>
  The options a driver is constructed with. The \<^verbatim>\<open>fetcher\<close> is always the same callback
  to the locale retrieval of the application and is left out.
\<close>

record options =
  opt_style :: string
  opt_format :: string
  opt_localeOverride :: "string option"

text \<open>An entry of the bibliography as the driver returns it.\<close>

record bibEntry =
  entry_id :: string
  entry_value :: string

datatype error = TypeError | Thrown string

section \<open>The driver and the item provider\<close>

text \<open>
  The driver is the citation processor behind the bridge, a handle per constructed instance.
  The bridge only calls it, so the model records the calls: every construction and every
  method call, with its handle and its arguments, in the order issued. What the driver
  answers (whether a call throws, and what a query returns) is a parameter, a function of
  the calls made so far.
\<close>

datatype call =
    Free
  | SetOutputFormat string
  | InsertReference jsobj
  | InsertCluster cluster
  | PreviewCluster cluster "clusterOrder list" jsval
  | BuiltCluster jsval
  | SetClusterOrder "clusterOrder list"
  | BatchedUpdates
  | IncludeUncited "jsval list"
  | BibliographyMeta
  | MakeBibliography

datatype event = New nat options | Call nat call

record driverLib =
  raises :: "event list \<Rightarrow> event \<Rightarrow> error option"
  previewClusterResult :: "event list \<Rightarrow> jsval"
  builtClusterResult :: "event list \<Rightarrow> jsval"
  batchedUpdatesResult :: "event list \<Rightarrow> jsval"
  bibliographyMetaResult :: "event list \<Rightarrow> jsobj"
  makeBibliographyResult :: "event list \<Rightarrow> bibEntry list"

text \<open>\<^verbatim>\<open>sys.retrieveItem(id)\<close> returns the item's record or throws.\<close>

record system =
  retrieveItem :: "jsval \<Rightarrow> error + jsobj"

record styleObj =
  style_styleID :: jsval
  style_hasBibliography :: jsval

record engineOpt =
  sort_citations :: bool

text \<open>
  The fields of \<^verbatim>\<open>Zotero.CiteprocRs.Engine\<close>, the private ones without their underscore;
  \<open>driver\<close> is the handle the session holds, \<open>None\<close> while \<^verbatim>\<open>this._driver\<close> is undefined.
\<close>

record engine =
  styleXML :: string
  overrideLocale :: bool
  engineLocale :: string
  format :: string
  driver :: "nat option"
  styleID :: jsval
  hasBibliography :: jsval
  sys :: system
  opt :: engineOpt

record world =
  eng :: engine
  trace :: "event list"

type_synonym 'a action = "world \<Rightarrow> (error + 'a) \<times> world"

definition ret :: "'a \<Rightarrow> 'a action" where
  "ret x w = (Inr x, w)"

text \<open>Sequencing: an exception of the first action ends the whole, in the state it left.\<close>

definition thenDo :: "'a action \<Rightarrow> ('a \<Rightarrow> 'b action) \<Rightarrow> 'b action" where
  "thenDo m f w = (case m w of (Inl e, w') \<Rightarrow> (Inl e, w') | (Inr x, w') \<Rightarrow> f x w')"

text \<open>
  \<^verbatim>\<open>this._driver.method(args)\<close>: a \<open>TypeError\<close> when there is no driver, else the call is
  issued and may throw.
\<close>

definition driverCall :: "driverLib \<Rightarrow> call \<Rightarrow> unit action" where
  "driverCall D c w =
     (case driver (eng w) of
        None \<Rightarrow> (Inl TypeError, w)
      | Some h \<Rightarrow>
          (let w' = w\<lparr>trace := trace w @ [Call h c]\<rparr> in
           case raises D (trace w) (Call h c) of
             Some e \<Rightarrow> (Inl e, w')
           | None \<Rightarrow> (Inr (), w')))"

fun isNew :: "event \<Rightarrow> bool" where
  "isNew (New h opts) = True"
| "isNew (Call h c) = False"

text \<open>
  \<^verbatim>\<open>this._driver = new Zotero.CiteprocRs.Driver(options)\<close>: the new handle is numbered by the
  constructions before it; the field is assigned only when the constructor returns.
\<close>

definition newDriver :: "driverLib \<Rightarrow> options \<Rightarrow> unit action" where
  "newDriver D opts w =
     (let h = length (filter isNew (trace w));
          w' = w\<lparr>trace := trace w @ [New h opts]\<rparr> in
      case raises D (trace w) (New h opts) of
        Some e \<Rightarrow> (Inl e, w')
      | None \<Rightarrow> (Inr (), w'\<lparr>eng := (eng w')\<lparr>driver := Some h\<rparr>\<rparr>))"

section \<open>The engine session\<close>

text \<open>
  Each method of \<^verbatim>\<open>Zotero.CiteprocRs.Engine\<close> is an action on the session and the record of
  driver calls. The \<^verbatim>\<open>Zotero.debug\<close> lines write to the log only and are left out.
\<close>

subsection \<open>Lifecycle\<close>

definition free :: "driverLib \<Rightarrow> bool \<Rightarrow> unit action" where
  "free D ignoreErrors w =
     (case driverCall D Free w of
        (Inl e, w') \<Rightarrow> if ignoreErrors then (Inr (), w') else (Inl e, w')
      | (Inr u, w') \<Rightarrow> (Inr (), w'))"

definition driverOptions :: "engine \<Rightarrow> options" where
  "driverOptions e =
     \<lparr>opt_style = styleXML e, opt_format = format e,
      opt_localeOverride = (if overrideLocale e then Some (engineLocale e) else None)\<rparr>"

definition resetDriver :: "driverLib \<Rightarrow> unit action" where
  "resetDriver D w =
     thenDo (case driver (eng w) of Some h \<Rightarrow> driverCall D Free | None \<Rightarrow> ret ())
       (\<lambda>u w1. newDriver D (driverOptions (eng w1)) w1) w"

text \<open>
  The constructor, from the calls recorded before it. \<^verbatim>\<open>_resetDriver\<close> runs after the four
  fields it reads are assigned and before the others, which it does not read.
\<close>

definition newEngine ::
  "driverLib \<Rightarrow> system \<Rightarrow> styleObj \<Rightarrow> string \<Rightarrow> string \<Rightarrow> string \<Rightarrow> bool \<Rightarrow> event list
     \<Rightarrow> (error + unit) \<times> world" where
  "newEngine D system style styleXML' locale' format' overrideLocale' tr =
     resetDriver D
       \<lparr>eng = \<lparr>styleXML = styleXML', overrideLocale = overrideLocale',
                engineLocale = locale', format = format', driver = None,
                styleID = style_styleID style, hasBibliography = style_hasBibliography style,
                sys = system, opt = \<lparr>sort_citations = True\<rparr>\<rparr>,
        trace = tr\<rparr>"

definition setOutputFormat :: "driverLib \<Rightarrow> string \<Rightarrow> unit action" where
  "setOutputFormat D format0 w =
     (let format' = (if format0 = ''text'' then ''plain'' else format0) in
      if format (eng w) \<noteq> format'
      then driverCall D (SetOutputFormat format') (w\<lparr>eng := (eng w)\<lparr>format := format'\<rparr>\<rparr>)
      else (Inr (), w))"

subsection \<open>Building cites\<close>

definition additionalCSLProperties :: "string list" where
  "additionalCSLProperties =
     [''locator'', ''label'', ''suppress-author'', ''author-only'', ''prefix'', ''suffix'']"

text \<open>\<^verbatim>\<open>citeprocItem.id = `${citeprocItem.id}`\<close>\<close>

definition stringifyId :: "jsobj \<Rightarrow> jsobj" where
  "stringifyId citeprocItem = setProp citeprocItem ''id'' (JStr (toString (getProp citeprocItem ''id'')))"

text \<open>The body of the \<^verbatim>\<open>forEach\<close> over the additional properties.\<close>

definition addProperty :: "jsobj \<Rightarrow> string \<Rightarrow> jsobj \<Rightarrow> jsobj" where
  "addProperty citationItem key cite =
     (if \<not> truthy (getProp citationItem key) then cite
      else if key = ''suppress-author'' then setProp cite ''mode'' (JStr ''SuppressAuthor'')
      else if key = ''author-only'' then setProp cite ''mode'' (JStr ''AuthorOnly'')
      else setProp cite key (getProp citationItem key))"

definition makeCite :: "jsobj \<Rightarrow> jsobj \<Rightarrow> jsobj" where
  "makeCite citationItem citeprocItem =
     fold (addProperty citationItem) additionalCSLProperties
       [(''id'', JStr (toString (getProp citeprocItem ''id''))),
        (''locator'', JUndefined), (''locators'', JUndefined)]"

text \<open>
  The loop of \<^verbatim>\<open>_insertCitationReferences\<close>, with the cites pushed so far: the item is
  retrieved, its id made a string, the reference inserted and the cite pushed.
\<close>

fun insertCitationReferencesLoop :: "driverLib \<Rightarrow> jsobj list \<Rightarrow> jsobj list \<Rightarrow> (jsobj list) action" where
  "insertCitationReferencesLoop D [] cites0 w = (Inr cites0, w)"
| "insertCitationReferencesLoop D (citationItem # rest) cites0 w =
     (case retrieveItem (sys (eng w)) (getProp citationItem ''id'') of
        Inl e \<Rightarrow> (Inl e, w)
      | Inr item \<Rightarrow>
          (let citeprocItem = stringifyId item in
           case driverCall D (InsertReference citeprocItem) w of
             (Inl e, w') \<Rightarrow> (Inl e, w')
           | (Inr u, w') \<Rightarrow>
               insertCitationReferencesLoop D rest
                 (cites0 @ [makeCite citationItem citeprocItem]) w'))"

definition insertCitationReferences :: "driverLib \<Rightarrow> citation \<Rightarrow> (jsobj list) action" where
  "insertCitationReferences D citation = insertCitationReferencesLoop D (citationItems citation) []"

subsection \<open>Cluster order\<close>

text \<open>\<^verbatim>\<open>typeof noteIndex == "string" ? parseInt(noteIndex) : noteIndex\<close>\<close>

definition normalizeNoteIndex :: "jsval \<Rightarrow> jsval" where
  "normalizeNoteIndex noteIndex = (case noteIndex of JStr s \<Rightarrow> parseInt s | _ \<Rightarrow> noteIndex)"

definition noteOf :: "jsval \<Rightarrow> jsval option" where
  "noteOf noteIndex =
     (let n = normalizeNoteIndex noteIndex in if truthy n then Some n else None)"

text \<open>The body of the loop of \<^verbatim>\<open>_getClusterOrder\<close>: the entry of one pair.\<close>

fun clusterOrderEntry :: "jsval \<times> jsval \<Rightarrow> clusterOrder" where
  "clusterOrderEntry (citationID0, noteIndex) =
     \<lparr>order_id = Some citationID0, order_note = noteOf noteIndex\<rparr>"

fun getClusterOrderLoop :: "(jsval \<times> jsval) list \<Rightarrow> clusterOrder list \<Rightarrow> clusterOrder list" where
  "getClusterOrderLoop [] clusters = clusters"
| "getClusterOrderLoop (pair # rest) clusters =
     getClusterOrderLoop rest (clusters @ [clusterOrderEntry pair])"

definition getClusterOrder :: "(jsval \<times> jsval) list \<Rightarrow> clusterOrder list" where
  "getClusterOrder citations = getClusterOrderLoop citations []"

text \<open>\<^verbatim>\<open>xs.splice(start, 0, x)\<close> for a start that is not negative.\<close>

definition spliceInsert :: "nat \<Rightarrow> 'a \<Rightarrow> 'a list \<Rightarrow> 'a list" where
  "spliceInsert start x xs = take start xs @ [x] @ drop start xs"

subsection \<open>Clusters\<close>

text \<open>
  \<^verbatim>\<open>previewCitationCluster\<close> assigns to its argument, so the citation as the call leaves it
  is returned beside the outcome. \<open>randomString\<close> is what
  \<^verbatim>\<open>Zotero.Utilities.randomString(10)\<close> returns when it is called.
\<close>

definition previewCitationCluster ::
  "driverLib \<Rightarrow> string \<Rightarrow> citation \<Rightarrow> (jsval \<times> jsval) list \<Rightarrow> (jsval \<times> jsval) list \<Rightarrow> jsval
     \<Rightarrow> world \<Rightarrow> (error + jsval) \<times> citation \<times> world" where
  "previewCitationCluster D randomString citation0 citationsPre citationsPost outputFormat w =
     (let citation = (if \<not> truthy (citationID citation0)
                      then citation0\<lparr>citationID := JStr randomString\<rparr> else citation0) in
      case insertCitationReferences D citation w of
        (Inl e, w1) \<Rightarrow> (Inl e, citation, w1)
      | (Inr cites', w1) \<Rightarrow>
          (let cluster = \<lparr>cluster_id = None, cites = cites'\<rparr>;
               thisClusterOrder =
                 \<lparr>order_id = None, order_note = noteOf (getProp (properties citation) ''noteIndex'')\<rparr>;
               allClusterOrder =
                 spliceInsert (length citationsPre) thisClusterOrder
                   (getClusterOrder (citationsPre @ citationsPost)) in
           case driverCall D (PreviewCluster cluster allClusterOrder outputFormat) w1 of
             (Inl e, w2) \<Rightarrow> (Inl e, citation, w2)
           | (Inr u, w2) \<Rightarrow> (Inr (previewClusterResult D (trace w2)), citation, w2)))"

definition insertCluster :: "driverLib \<Rightarrow> citation \<Rightarrow> cluster action" where
  "insertCluster D citation =
     thenDo (insertCitationReferences D citation) (\<lambda>cites'.
       let cluster = \<lparr>cluster_id = Some (citationID citation), cites = cites'\<rparr> in
       thenDo (driverCall D (InsertCluster cluster)) (\<lambda>u. ret cluster))"

definition appendCitationCluster :: "driverLib \<Rightarrow> citation \<Rightarrow> jsval action" where
  "appendCitationCluster D citation =
     thenDo (insertCluster D citation) (\<lambda>cluster.
       thenDo (driverCall D (BuiltCluster (citationID citation))) (\<lambda>u w.
         (Inr (builtClusterResult D (trace w)), w)))"

definition setClusterOrder :: "driverLib \<Rightarrow> (jsval \<times> jsval) list \<Rightarrow> unit action" where
  "setClusterOrder D citations = driverCall D (SetClusterOrder (getClusterOrder citations))"

definition getBatchedUpdates :: "driverLib \<Rightarrow> jsval action" where
  "getBatchedUpdates D =
     thenDo (driverCall D BatchedUpdates) (\<lambda>u w. (Inr (batchedUpdatesResult D (trace w)), w))"

subsection \<open>Uncited items\<close>

fun updateUncitedItemsLoop :: "driverLib \<Rightarrow> jsval list \<Rightarrow> jsval list \<Rightarrow> (jsval list) action" where
  "updateUncitedItemsLoop D [] referenceIDs w = (Inr referenceIDs, w)"
| "updateUncitedItemsLoop D (itemID # rest) referenceIDs w =
     (case retrieveItem (sys (eng w)) itemID of
        Inl e \<Rightarrow> (Inl e, w)
      | Inr item \<Rightarrow>
          (let citeprocItem = stringifyId item in
           case driverCall D (InsertReference citeprocItem) w of
             (Inl e, w') \<Rightarrow> (Inl e, w')
           | (Inr u, w') \<Rightarrow>
               updateUncitedItemsLoop D rest
                 (referenceIDs @ [getProp citeprocItem ''id'']) w'))"

definition updateUncitedItems :: "driverLib \<Rightarrow> jsval list \<Rightarrow> unit action" where
  "updateUncitedItems D itemIDs =
     thenDo (updateUncitedItemsLoop D itemIDs []) (\<lambda>referenceIDs.
       driverCall D (IncludeUncited referenceIDs))"

definition updateItems :: "driverLib \<Rightarrow> jsval list \<Rightarrow> unit action" where
  "updateItems D itemIDs = updateUncitedItems D itemIDs"

subsection \<open>Rebuilding\<close>

fun insertClusters :: "driverLib \<Rightarrow> citation list \<Rightarrow> unit action" where
  "insertClusters D [] w = (Inr (), w)"
| "insertClusters D (citation # rest) w =
     (case insertCluster D citation w of
        (Inl e, w') \<Rightarrow> (Inl e, w')
      | (Inr cluster, w') \<Rightarrow> insertClusters D rest w')"

definition rebuildProcessorState ::
  "driverLib \<Rightarrow> citation list \<Rightarrow> string \<Rightarrow> jsval list \<Rightarrow> unit action" where
  "rebuildProcessorState D citations format' uncited w =
     thenDo (resetDriver D) (\<lambda>u.
       thenDo (insertClusters D citations) (\<lambda>u.
         thenDo (setClusterOrder D
                   (map (\<lambda>citation. (citationID citation, getProp (properties citation) ''noteIndex''))
                      citations)) (\<lambda>u.
           updateUncitedItems D uncited)))
       (w\<lparr>eng := (eng w)\<lparr>format := format'\<rparr>\<rparr>)"

subsection \<open>Bibliography\<close>

text \<open>
  The conversion of the driver's metadata: \<^verbatim>\<open>Object.assign\<close> with the renamed fields, its
  argument read from the metadata before the assignment, then \<^verbatim>\<open>second-field-align\<close>.
\<close>

definition translateMeta :: "jsobj \<Rightarrow> jsobj" where
  "translateMeta bibliographyMeta =
     (let merged = assign bibliographyMeta
        [(''maxoffset'', getProp bibliographyMeta ''maxOffset''),
         (''linespacing'', getProp bibliographyMeta ''lineSpacing''),
         (''entryspacing'', getProp bibliographyMeta ''entrySpacing''),
         (''hangingindent'', getProp bibliographyMeta ''hangingIndent''),
         (''bibstart'', andMember (getProp bibliographyMeta ''formatMeta'') ''markupPre''),
         (''bibend'', andMember (getProp bibliographyMeta ''formatMeta'') ''markupPost'')]
      in setProp merged ''second-field-align'' (getProp merged ''secondFieldAlign''))"

text \<open>The text \<^verbatim>\<open><div class="csl-entry">\<close>; \<open>CHR 0x22\<close> is the double quote.\<close>

definition cslEntryOpen :: string where
  "cslEntryOpen = ''<div class='' @ [CHR 0x22] @ ''csl-entry'' @ [CHR 0x22] @ ''>''"

definition formatEntries :: "string \<Rightarrow> bibEntry list \<Rightarrow> string list" where
  "formatEntries format' bibliographyEntries =
     (if format' = ''html''
      then map (\<lambda>entry. cslEntryOpen @ entry_value entry @ ''</div>'')
             bibliographyEntries
      else if format' = ''plain''
      then map (\<lambda>entry. entry_value entry @ [CHR 0x0A]) bibliographyEntries
      else map entry_value bibliographyEntries)"

definition makeBibliography :: "driverLib \<Rightarrow> (jsobj \<times> string list) action" where
  "makeBibliography D =
     thenDo (driverCall D BibliographyMeta) (\<lambda>u w1.
       let bibliographyMeta = translateMeta (bibliographyMetaResult D (trace w1)) in
       thenDo (driverCall D MakeBibliography) (\<lambda>u w2.
         let bibliographyEntries = makeBibliographyResult D (trace w2);
             entry_ids = JArr (map (\<lambda>entry. JArr [JStr (entry_id entry)]) bibliographyEntries);
             strings = formatEntries (format (eng w2)) bibliographyEntries
         in (Inr (assign [(''entry_ids'', entry_ids)] bibliographyMeta, strings), w2)) w1)"

section \<open>Notions used in the statements\<close>

text \<open>
  The reference the provider gives for an identifier, its \<^verbatim>\<open>id\<close> in string form; the cite
  of a cited item; the calls that register references; the calls that insert a cluster.
\<close>

definition resolved :: "system \<Rightarrow> jsval \<Rightarrow> bool" where
  "resolved s itemID = (\<not> isl (retrieveItem s itemID))"

definition referenceOf :: "system \<Rightarrow> jsval \<Rightarrow> jsobj" where
  "referenceOf s itemID =
     (case retrieveItem s itemID of Inr item \<Rightarrow> stringifyId item | Inl e \<Rightarrow> [])"

definition citeOf :: "system \<Rightarrow> jsobj \<Rightarrow> jsobj" where
  "citeOf s citationItem = makeCite citationItem (referenceOf s (getProp citationItem ''id''))"

definition referenceCalls :: "nat \<Rightarrow> system \<Rightarrow> jsval list \<Rightarrow> event list" where
  "referenceCalls h s itemIDs = map (\<lambda>itemID. Call h (InsertReference (referenceOf s itemID))) itemIDs"

definition citedIDs :: "citation \<Rightarrow> jsval list" where
  "citedIDs citation = map (\<lambda>citationItem. getProp citationItem ''id'') (citationItems citation)"

definition clusterOf :: "system \<Rightarrow> citation \<Rightarrow> cluster" where
  "clusterOf s citation =
     \<lparr>cluster_id = Some (citationID citation), cites = map (citeOf s) (citationItems citation)\<rparr>"

definition clusterCalls :: "nat \<Rightarrow> system \<Rightarrow> citation \<Rightarrow> event list" where
  "clusterCalls h s citation =
     referenceCalls h s (citedIDs citation) @ [Call h (InsertCluster (clusterOf s citation))]"

text \<open>
  The identifier of a registered reference; the release of the handle a session holds, if
  it holds one; the pair \<^verbatim>\<open>[citationID, noteIndex]\<close> of a citation.
\<close>

definition referenceID :: "system \<Rightarrow> jsval \<Rightarrow> jsval" where
  "referenceID s itemID = getProp (referenceOf s itemID) ''id''"

definition releaseCalls :: "nat option \<Rightarrow> event list" where
  "releaseCalls d = (case d of None \<Rightarrow> [] | Some h \<Rightarrow> [Call h Free])"

definition citationPair :: "citation \<Rightarrow> jsval \<times> jsval" where
  "citationPair citation = (citationID citation, getProp (properties citation) ''noteIndex'')"

text \<open>
  The note of an order entry as the description of the order has it, by the kind of the
  note index: a string is parsed, and the integer parsed is the note unless it is zero; a
  string without an integer gives no note; a number is the note unless it is zero;
  \<open>undefined\<close>, \<open>null\<close>, \<open>NaN\<close> and \<open>false\<close> give no note; the values left, which are
  truthy and no strings, are the note as they are.
\<close>

definition noteAsDescribed :: "jsval \<Rightarrow> jsval option" where
  "noteAsDescribed noteIndex =
     (case noteIndex of
        JStr s \<Rightarrow> (case parseInt s of JNum n \<Rightarrow> if n = 0 then None else Some (JNum n) | _ \<Rightarrow> None)
      | JNum n \<Rightarrow> if n = 0 then None else Some (JNum n)
      | JUndefined \<Rightarrow> None
      | JNull \<Rightarrow> None
      | JNaN \<Rightarrow> None
      | JBool b \<Rightarrow> if b then Some (JBool True) else None
      | JArr xs \<Rightarrow> Some (JArr xs)
      | JObj obj \<Rightarrow> Some (JObj obj))"

text \<open>
  The calls of a preview on handle \<open>h\<close>: the registration of each cited reference, in the
  order of the cited items, and then the one \<^verbatim>\<open>previewCluster\<close> call.
\<close>

definition previewCalls ::
  "nat \<Rightarrow> system \<Rightarrow> citation \<Rightarrow> (jsval \<times> jsval) list \<Rightarrow> (jsval \<times> jsval) list \<Rightarrow> jsval
     \<Rightarrow> event list" where
  "previewCalls h s citation citationsPre citationsPost outputFormat =
     map (\<lambda>itemID. Call h (InsertReference (referenceOf s itemID))) (citedIDs citation) @
     [Call h (PreviewCluster
        \<lparr>cluster_id = None, cites = map (citeOf s) (citationItems citation)\<rparr>
        (map clusterOrderEntry citationsPre @
         \<lparr>order_id = None, order_note = noteOf (getProp (properties citation) ''noteIndex'')\<rparr> #
         map clusterOrderEntry citationsPost)
        outputFormat)]"

text \<open>The names the bibliography metadata is given for the consumers of the older engine.\<close>

definition legacyNames :: "string list" where
  "legacyNames =
     [''maxoffset'', ''linespacing'', ''entryspacing'', ''hangingindent'', ''bibstart'',
      ''bibend'', ''second-field-align'']"

text \<open>
  A cite as the description of the cite builder has it, for a cited item and the record the
  provider returned for it: the \<^verbatim>\<open>id\<close> is the record's identifier as a string; each of
  \<^verbatim>\<open>locator\<close>, \<^verbatim>\<open>label\<close>, \<^verbatim>\<open>prefix\<close> and \<^verbatim>\<open>suffix\<close> carries the item's value when that
  is truthy and reads as \<open>undefined\<close> when it is not; \<^verbatim>\<open>mode\<close> follows the two flags and is
  missing when neither is set.
\<close>

definition citeAsDescribed :: "jsobj \<Rightarrow> jsobj \<Rightarrow> jsobj \<Rightarrow> bool" where
  "citeAsDescribed citationItem item cite =
     (map_of cite ''id'' = Some (JStr (toString (getProp item ''id''))) \<and>
      list_all
        (\<lambda>key. if truthy (getProp citationItem key)
               then map_of cite key = Some (getProp citationItem key)
               else getProp cite key = JUndefined)
        [''locator'', ''label'', ''prefix'', ''suffix''] \<and>
      map_of cite ''mode'' =
        (if truthy (getProp citationItem ''suppress-author'') then Some (JStr ''SuppressAuthor'')
         else if truthy (getProp citationItem ''author-only'') then Some (JStr ''AuthorOnly'')
         else None))"

section \<open>A session to evaluate on\<close>

text \<open>
  A provider that knows the items with a numeric identifier; a driver that throws nowhere;
  a driver whose \<^verbatim>\<open>free\<close> throws; a session as the constructor leaves it; a citation of
  two items, anchored to note 3.
\<close>

definition exampleSystem :: system where
  "exampleSystem =
     \<lparr>retrieveItem = (\<lambda>itemID. case itemID of
         JNum n \<Rightarrow> Inr [(''id'', JNum n), (''type'', JStr ''book'')]
       | _ \<Rightarrow> Inl (Thrown ''no such item''))\<rparr>"

definition exampleMeta :: jsobj where
  "exampleMeta =
     [(''maxOffset'', JNum 2), (''lineSpacing'', JNum 1), (''entrySpacing'', JNum 0),
      (''hangingIndent'', JBool True), (''secondFieldAlign'', JBool False),
      (''formatMeta'', JObj [(''markupPre'', JStr ''<div>''), (''markupPost'', JStr ''</div>'')])]"

definition quietDriver :: driverLib where
  "quietDriver =
     \<lparr>raises = (\<lambda>t ev. None),
      previewClusterResult = (\<lambda>t. JStr ''(Doe 2019, 12)''),
      builtClusterResult = (\<lambda>t. JStr ''(Doe 2019)''),
      batchedUpdatesResult = (\<lambda>t. JArr []),
      bibliographyMetaResult = (\<lambda>t. exampleMeta),
      makeBibliographyResult =
        (\<lambda>t. [\<lparr>entry_id = ''a'', entry_value = ''X''\<rparr>, \<lparr>entry_id = ''b'', entry_value = ''Y''\<rparr>])\<rparr>"

definition failingFreeDriver :: driverLib where
  "failingFreeDriver =
     quietDriver\<lparr>raises := (\<lambda>t ev. case ev of
         Call h Free \<Rightarrow> Some (Thrown ''free failed'')
       | _ \<Rightarrow> None)\<rparr>"

definition exampleOptions :: options where
  "exampleOptions = \<lparr>opt_style = ''<style/>'', opt_format = ''html'', opt_localeOverride = None\<rparr>"

definition exampleWorld :: world where
  "exampleWorld =
     \<lparr>eng = \<lparr>styleXML = ''<style/>'', overrideLocale = False, engineLocale = ''en-US'',
              format = ''html'', driver = Some 0, styleID = JStr ''apa'',
              hasBibliography = JBool True, sys = exampleSystem,
              opt = \<lparr>sort_citations = True\<rparr>\<rparr>,
      trace = [New 0 exampleOptions]\<rparr>"

definition exampleCitation :: citation where
  "exampleCitation =
     \<lparr>citationID = JStr ''c1'',
      citationItems =
        [[(''id'', JNum 7), (''locator'', JStr ''12''), (''suppress-author'', JBool True)],
         [(''id'', JNum 8), (''author-only'', JBool True), (''prefix'', JStr ''see '')]],
      properties = [(''noteIndex'', JStr ''3'')]\<rparr>"

text \<open>The calls a preview may issue: the registration of a reference and the preview itself.\<close>

fun referenceOrPreview :: "event \<Rightarrow> bool" where
  "referenceOrPreview (Call h (InsertReference reference)) = True"
| "referenceOrPreview (Call h (PreviewCluster cluster allClusterOrder outputFormat)) = True"
| "referenceOrPreview ev = False"

text \<open>
  The example session after an earlier \<^verbatim>\<open>includeUncited\<close> for item 1; the example citation
  before it has an identifier.
\<close>

definition uncitedWorld :: world where
  "uncitedWorld = exampleWorld\<lparr>trace := trace exampleWorld @ [Call 0 (IncludeUncited [JStr ''1''])]\<rparr>"

definition unnamedCitation :: citation where
  "unnamedCitation = exampleCitation\<lparr>citationID := JUndefined\<rparr>"

section \<open>Facts about objects\<close>

lemma map_of_setProp: "map_of (setProp obj k v) = (map_of obj)(k \<mapsto> v)"
  by (simp add: setProp_def update_conv')

lemma getProp_setProp: "getProp (setProp obj k v) k' = (if k' = k then v else getProp obj k')"
  by (simp add: getProp_def map_of_setProp)

lemma map_of_assign:
  "distinct (map fst source) \<Longrightarrow> map_of (assign target source) = map_of target ++ map_of source"
proof (induction source arbitrary: target)
  case Nil
  then show ?case by (simp add: assign_def)
next
  case (Cons p source)
  obtain k v where p: "p = (k, v)" by (cases p)
  from Cons.prems p have nk: "k \<notin> fst ` set source" and d: "distinct (map fst source)"
    by auto
  have "assign target (p # source) = assign (setProp target k v) source"
    by (simp add: assign_def p)
  then have "map_of (assign target (p # source)) = map_of (setProp target k v) ++ map_of source"
    using Cons.IH [OF d, of "setProp target k v"] by simp
  then have "map_of (assign target (p # source)) = (map_of target)(k \<mapsto> v) ++ map_of source"
    by (simp only: map_of_setProp)
  also have "\<dots> = map_of target ++ map_of (p # source)"
  proof -
    have none: "map_of source k = None"
      using nk by (simp add: map_of_eq_None_iff)
    show ?thesis
      unfolding p by (rule ext) (simp add: map_add_def none split: option.splits)
  qed
  finally show ?case .
qed

section \<open>Facts about cites\<close>

lemma addProperty_keys:
  "addProperty ci ''locator'' cite =
     (if truthy (getProp ci ''locator'') then setProp cite ''locator'' (getProp ci ''locator'') else cite)"
  "addProperty ci ''label'' cite =
     (if truthy (getProp ci ''label'') then setProp cite ''label'' (getProp ci ''label'') else cite)"
  "addProperty ci ''prefix'' cite =
     (if truthy (getProp ci ''prefix'') then setProp cite ''prefix'' (getProp ci ''prefix'') else cite)"
  "addProperty ci ''suffix'' cite =
     (if truthy (getProp ci ''suffix'') then setProp cite ''suffix'' (getProp ci ''suffix'') else cite)"
  "addProperty ci ''suppress-author'' cite =
     (if truthy (getProp ci ''suppress-author'') then setProp cite ''mode'' (JStr ''SuppressAuthor'') else cite)"
  "addProperty ci ''author-only'' cite =
     (if truthy (getProp ci ''author-only'') then setProp cite ''mode'' (JStr ''AuthorOnly'') else cite)"
  by (simp_all add: addProperty_def)

lemma map_of_if: "map_of (if b then x else y) k = (if b then map_of x k else map_of y k)"
  by simp

lemma makeCite_unfold:
  "makeCite ci it =
     addProperty ci ''suffix'' (addProperty ci ''prefix'' (addProperty ci ''author-only''
       (addProperty ci ''suppress-author'' (addProperty ci ''label'' (addProperty ci ''locator''
         [(''id'', JStr (toString (getProp it ''id''))),
          (''locator'', JUndefined), (''locators'', JUndefined)])))))"
  by (simp add: makeCite_def additionalCSLProperties_def)

lemmas makeCite_simps = makeCite_unfold addProperty_keys map_of_if map_of_setProp

lemma makeCite_id:
  "map_of (makeCite ci it) ''id'' = Some (JStr (toString (getProp it ''id'')))"
  by (simp add: makeCite_simps)

lemma makeCite_mode:
  "map_of (makeCite ci it) ''mode'' =
     (if truthy (getProp ci ''author-only'') then Some (JStr ''AuthorOnly'')
      else if truthy (getProp ci ''suppress-author'') then Some (JStr ''SuppressAuthor'')
      else None)"
  by (simp add: makeCite_simps)

lemma makeCite_locator:
  "map_of (makeCite ci it) ''locator'' =
     Some (if truthy (getProp ci ''locator'') then getProp ci ''locator'' else JUndefined)"
  by (simp add: makeCite_simps)

lemma makeCite_label:
  "map_of (makeCite ci it) ''label'' =
     (if truthy (getProp ci ''label'') then Some (getProp ci ''label'') else None)"
  by (simp add: makeCite_simps)

lemma makeCite_prefix:
  "map_of (makeCite ci it) ''prefix'' =
     (if truthy (getProp ci ''prefix'') then Some (getProp ci ''prefix'') else None)"
  by (simp add: makeCite_simps)

lemma makeCite_suffix:
  "map_of (makeCite ci it) ''suffix'' =
     (if truthy (getProp ci ''suffix'') then Some (getProp ci ''suffix'') else None)"
  by (simp add: makeCite_simps)

lemma getProp_stringifyId:
  "getProp (stringifyId item) ''id'' = JStr (toString (getProp item ''id''))"
  by (simp add: stringifyId_def getProp_setProp)

lemma makeCite_asDescribed:
  assumes "\<not> (truthy (getProp ci ''suppress-author'') \<and> truthy (getProp ci ''author-only''))"
  shows "citeAsDescribed ci item (makeCite ci (stringifyId item))"
  using assms
  by (simp add: citeAsDescribed_def makeCite_id makeCite_mode makeCite_locator makeCite_label
      makeCite_prefix makeCite_suffix getProp_stringifyId getProp_def [of "makeCite ci (stringifyId item)"])

section \<open>Driver calls that do not throw\<close>

lemma driverCall_quiet:
  assumes "driver (eng w) = Some h" and "\<And>t ev. raises D t ev = None"
  shows "driverCall D c w = (Inr (), w\<lparr>trace := trace w @ [Call h c]\<rparr>)"
  using assms by (simp add: driverCall_def)

lemma insertCitationReferencesLoop_quiet:
  assumes "driver (eng w) = Some h" and "\<And>t ev. raises D t ev = None"
    and "\<forall>citationItem \<in> set items. resolved (sys (eng w)) (getProp citationItem ''id'')"
  shows "insertCitationReferencesLoop D items cites0 w =
    (Inr (cites0 @ map (citeOf (sys (eng w))) items),
     w\<lparr>trace := trace w @ referenceCalls h (sys (eng w)) (map (\<lambda>citationItem. getProp citationItem ''id'') items)\<rparr>)"
  using assms
proof (induction items arbitrary: cites0 w)
  case Nil
  then show ?case by (simp add: referenceCalls_def)
next
  case (Cons ci items)
  from Cons.prems(3) obtain item where item: "retrieveItem (sys (eng w)) (getProp ci ''id'') = Inr item"
    by (cases "retrieveItem (sys (eng w)) (getProp ci ''id'')") (auto simp: resolved_def)
  let ?w' = "w\<lparr>trace := trace w @ [Call h (InsertReference (stringifyId item))]\<rparr>"
  have call: "driverCall D (InsertReference (stringifyId item)) w = (Inr (), ?w')"
    using Cons.prems(1,2) by (rule driverCall_quiet)
  have ih: "insertCitationReferencesLoop D items (cites0 @ [makeCite ci (stringifyId item)]) ?w' =
    (Inr ((cites0 @ [makeCite ci (stringifyId item)]) @ map (citeOf (sys (eng ?w'))) items),
     ?w'\<lparr>trace := trace ?w' @ referenceCalls h (sys (eng ?w')) (map (\<lambda>citationItem. getProp citationItem ''id'') items)\<rparr>)"
    using Cons.prems by (intro Cons.IH) auto
  show ?case
    using item call ih by (simp add: citeOf_def referenceOf_def referenceCalls_def Let_def comp_def)
qed

lemma insertCitationReferences_quiet:
  assumes "driver (eng w) = Some h" and "\<And>t ev. raises D t ev = None"
    and "\<forall>citationItem \<in> set (citationItems c). resolved (sys (eng w)) (getProp citationItem ''id'')"
  shows "insertCitationReferences D c w =
    (Inr (map (citeOf (sys (eng w))) (citationItems c)),
     w\<lparr>trace := trace w @ referenceCalls h (sys (eng w)) (citedIDs c)\<rparr>)"
  using insertCitationReferencesLoop_quiet [OF assms, of "[]"]
  by (simp add: insertCitationReferences_def citedIDs_def)

lemma driverCall_eng: "eng (snd (driverCall D c w)) = eng w"
  by (simp add: driverCall_def Let_def split: option.splits)

lemma driverCall_trace:
  "trace (snd (driverCall D c w)) =
     trace w @ (case driver (eng w) of None \<Rightarrow> [] | Some h \<Rightarrow> [Call h c])"
  by (simp add: driverCall_def Let_def split: option.splits)

section \<open>Facts about the cluster order\<close>

lemma getClusterOrderLoop_map:
  "getClusterOrderLoop pairs clusters = clusters @ map clusterOrderEntry pairs"
  by (induction pairs arbitrary: clusters) simp_all

lemma getClusterOrder_map: "getClusterOrder pairs = map clusterOrderEntry pairs"
  by (simp add: getClusterOrder_def getClusterOrderLoop_map)

lemma parseInt_cases: "parseInt s = JNaN \<or> (\<exists>n. parseInt s = JNum n)"
  by (simp add: parseInt_def Let_def split: prod.splits)

lemma noteOf_described: "noteOf noteIndex = noteAsDescribed noteIndex"
proof (cases noteIndex)
  case (JStr s)
  from parseInt_cases [of s] show ?thesis
    by (auto simp: JStr noteOf_def normalizeNoteIndex_def noteAsDescribed_def)
qed (simp_all add: noteOf_def normalizeNoteIndex_def noteAsDescribed_def)

lemma clusterOrderEntry_described:
  "clusterOrderEntry pair =
     \<lparr>order_id = Some (fst pair), order_note = noteAsDescribed (snd pair)\<rparr>"
  by (cases pair) (simp add: noteOf_described)

lemma spliceInsert_boundary:
  "spliceInsert (length xs) x (xs @ ys) = xs @ x # ys"
  by (simp add: spliceInsert_def)

section \<open>The calls of a preview\<close>

lemma previewCitationCluster_quiet:
  assumes live: "driver (eng w) = Some h"
    and quiet: "\<And>t ev. raises D t ev = None"
    and found: "\<forall>citationItem \<in> set (citationItems c).
                  resolved (sys (eng w)) (getProp citationItem ''id'')"
  shows "snd (snd (previewCitationCluster D randomString c citationsPre citationsPost outputFormat w)) =
     w\<lparr>trace := trace w @ referenceCalls h (sys (eng w)) (citedIDs c) @
          [Call h (PreviewCluster
             \<lparr>cluster_id = None, cites = map (citeOf (sys (eng w))) (citationItems c)\<rparr>
             (map clusterOrderEntry citationsPre @
              \<lparr>order_id = None, order_note = noteOf (getProp (properties c) ''noteIndex'')\<rparr> #
              map clusterOrderEntry citationsPost)
             outputFormat)]\<rparr>"
proof -
  define c' where "c' = (if \<not> truthy (citationID c) then c\<lparr>citationID := JStr randomString\<rparr> else c)"
  have items: "citationItems c' = citationItems c" and props: "properties c' = properties c"
    by (simp_all add: c'_def)
  have ids: "citedIDs c' = citedIDs c"
    by (simp add: citedIDs_def items)
  let ?w1 = "w\<lparr>trace := trace w @ referenceCalls h (sys (eng w)) (citedIDs c)\<rparr>"
  have refs: "insertCitationReferences D c' w =
      (Inr (map (citeOf (sys (eng w))) (citationItems c)), ?w1)"
    using insertCitationReferences_quiet [of w h D c'] live quiet found
    by (simp add: items ids)
  have live1: "driver (eng ?w1) = Some h"
    using live by simp
  have order: "spliceInsert (length citationsPre)
        \<lparr>order_id = None, order_note = noteOf (getProp (properties c) ''noteIndex'')\<rparr>
        (getClusterOrder (citationsPre @ citationsPost)) =
      map clusterOrderEntry citationsPre @
        \<lparr>order_id = None, order_note = noteOf (getProp (properties c) ''noteIndex'')\<rparr> #
        map clusterOrderEntry citationsPost"
    using spliceInsert_boundary [of "map clusterOrderEntry citationsPre" _ "map clusterOrderEntry citationsPost"]
    by (simp add: getClusterOrder_map)
  show ?thesis
    unfolding previewCitationCluster_def c'_def [symmetric] Let_def
    by (simp add: refs props order driverCall_quiet [OF live1 quiet])
qed

lemma insertCitationReferencesLoop_frame:
  "eng (snd (insertCitationReferencesLoop D items cites0 w)) = eng w \<and>
   (\<exists>calls. trace (snd (insertCitationReferencesLoop D items cites0 w)) = trace w @ calls \<and>
      list_all referenceOrPreview calls)"
proof (induction items arbitrary: cites0 w)
  case Nil
  show ?case by simp
next
  case (Cons ci items)
  show ?case
  proof (cases "retrieveItem (sys (eng w)) (getProp ci ''id'')")
    case (Inl e)
    then show ?thesis by simp
  next
    case (Inr item)
    let ?call = "driverCall D (InsertReference (stringifyId item)) w"
    have eng1: "eng (snd ?call) = eng w"
      by (rule driverCall_eng)
    have "trace (snd ?call) =
        trace w @ (case driver (eng w) of None \<Rightarrow> [] | Some h \<Rightarrow> [Call h (InsertReference (stringifyId item))])"
      by (rule driverCall_trace)
    then obtain calls1 where tr1: "trace (snd ?call) = trace w @ calls1"
      and ok1: "list_all referenceOrPreview calls1"
      by (cases "driver (eng w)") auto
    show ?thesis
    proof (cases "fst ?call")
      case (Inl e)
      then have "insertCitationReferencesLoop D (ci # items) cites0 w = (Inl e, snd ?call)"
        using Inr by (cases ?call) (simp add: Let_def)
      then show ?thesis
        using eng1 tr1 ok1 by auto
    next
      case (Inr u)
      let ?rest = "insertCitationReferencesLoop D items
          (cites0 @ [makeCite ci (stringifyId item)]) (snd ?call)"
      have step: "insertCitationReferencesLoop D (ci # items) cites0 w = ?rest"
        using Inr \<open>retrieveItem (sys (eng w)) (getProp ci ''id'') = Inr item\<close>
        by (cases ?call) (simp add: Let_def)
      from Cons.IH [of "cites0 @ [makeCite ci (stringifyId item)]" "snd ?call"]
      obtain calls2 where eng2: "eng (snd ?rest) = eng (snd ?call)"
        and tr2: "trace (snd ?rest) = trace (snd ?call) @ calls2"
        and ok2: "list_all referenceOrPreview calls2"
        by blast
      have "trace (snd ?rest) = trace w @ (calls1 @ calls2)"
        using tr1 tr2 by simp
      moreover have "list_all referenceOrPreview (calls1 @ calls2)"
        using ok1 ok2 by simp
      ultimately show ?thesis
        unfolding step using eng1 eng2 by metis
    qed
  qed
qed

lemma insertCitationReferencesLoop_no_driver:
  assumes "driver (eng w) = None"
  shows "trace (snd (insertCitationReferencesLoop D items cites0 w)) = trace w"
  using assms
  by (cases items) (simp_all add: driverCall_def Let_def split: sum.splits)

lemma insertCitationReferencesLoop_prefix:
  assumes "driver (eng w) = Some h"
  shows "\<exists>calls rest.
      trace (snd (insertCitationReferencesLoop D items cites0 w)) = trace w @ calls \<and>
      calls @ rest =
        referenceCalls h (sys (eng w)) (map (\<lambda>citationItem. getProp citationItem ''id'') items) \<and>
      (\<forall>cs. fst (insertCitationReferencesLoop D items cites0 w) = Inr cs \<longrightarrow>
         rest = [] \<and> cs = cites0 @ map (citeOf (sys (eng w))) items)"
  using assms
proof (induction items arbitrary: cites0 w)
  case Nil
  show ?case by (simp add: referenceCalls_def)
next
  case (Cons ci items)
  let ?ids = "map (\<lambda>citationItem. getProp citationItem ''id'') items"
  show ?case
  proof (cases "retrieveItem (sys (eng w)) (getProp ci ''id'')")
    case (Inl e)
    then show ?thesis by simp
  next
    case (Inr item)
    let ?ev = "Call h (InsertReference (stringifyId item))"
    let ?w1 = "w\<lparr>trace := trace w @ [?ev]\<rparr>"
    have expected: "referenceCalls h (sys (eng w)) (map (\<lambda>citationItem. getProp citationItem ''id'') (ci # items)) =
        ?ev # referenceCalls h (sys (eng w)) ?ids"
      using Inr by (simp add: referenceCalls_def referenceOf_def)
    have first: "citeOf (sys (eng w)) ci = makeCite ci (stringifyId item)"
      using Inr by (simp add: citeOf_def referenceOf_def)
    show ?thesis
    proof (cases "raises D (trace w) ?ev")
      case (Some e)
      then have "insertCitationReferencesLoop D (ci # items) cites0 w = (Inl e, ?w1)"
        using Inr Cons.prems by (simp add: driverCall_def Let_def)
      then show ?thesis
        unfolding expected by simp
    next
      case None
      let ?rest = "insertCitationReferencesLoop D items (cites0 @ [makeCite ci (stringifyId item)]) ?w1"
      have step: "insertCitationReferencesLoop D (ci # items) cites0 w = ?rest"
        using Inr None Cons.prems by (simp add: driverCall_def Let_def)
      have live1: "driver (eng ?w1) = Some h"
        using Cons.prems by simp
      from Cons.IH [OF live1, of "cites0 @ [makeCite ci (stringifyId item)]"]
      obtain calls rest where tr: "trace (snd ?rest) = trace ?w1 @ calls"
        and pre: "calls @ rest = referenceCalls h (sys (eng w)) ?ids"
        and fin: "\<forall>cs. fst ?rest = Inr cs \<longrightarrow>
            rest = [] \<and> cs = (cites0 @ [makeCite ci (stringifyId item)]) @ map (citeOf (sys (eng w))) items"
        by auto
      have "trace (snd ?rest) = trace w @ (?ev # calls)"
        using tr by simp
      moreover have "(?ev # calls) @ rest = ?ev # referenceCalls h (sys (eng w)) ?ids"
        using pre by simp
      moreover have "\<forall>cs. fst ?rest = Inr cs \<longrightarrow>
          rest = [] \<and> cs = cites0 @ map (citeOf (sys (eng w))) (ci # items)"
        using fin by (simp add: first)
      ultimately show ?thesis
        unfolding step expected by blast
    qed
  qed
qed

lemma previewCitationCluster_no_driver:
  assumes "driver (eng w) = None"
  shows "trace (snd (snd (previewCitationCluster D randomString c citationsPre citationsPost outputFormat w))) =
    trace w"
proof -
  define c' where "c' = (if \<not> truthy (citationID c) then c\<lparr>citationID := JStr randomString\<rparr> else c)"
  let ?refs = "insertCitationReferences D c' w"
  have tr1: "trace (snd ?refs) = trace w"
    unfolding insertCitationReferences_def
    by (rule insertCitationReferencesLoop_no_driver [OF assms])
  have "eng (snd ?refs) = eng w"
    using insertCitationReferencesLoop_frame [of D "citationItems c'" "[]" w]
    by (simp add: insertCitationReferences_def)
  then have none1: "driver (eng (snd ?refs)) = None"
    using assms by simp
  show ?thesis
    unfolding previewCitationCluster_def c'_def [symmetric] Let_def
    using tr1 none1 by (cases ?refs) (simp add: driverCall_def split: sum.splits)
qed

lemma previewCitationCluster_prefix:
  assumes live: "driver (eng w) = Some h"
  shows "\<exists>calls rest.
      trace (snd (snd (previewCitationCluster D randomString c citationsPre citationsPost outputFormat w))) =
        trace w @ calls \<and>
      calls @ rest = previewCalls h (sys (eng w)) c citationsPre citationsPost outputFormat"
proof -
  define c' where "c' = (if \<not> truthy (citationID c) then c\<lparr>citationID := JStr randomString\<rparr> else c)"
  have items: "citationItems c' = citationItems c" and props: "properties c' = properties c"
    by (simp_all add: c'_def)
  let ?refs = "insertCitationReferences D c' w"
  let ?order = "map clusterOrderEntry citationsPre @
      \<lparr>order_id = None, order_note = noteOf (getProp (properties c) ''noteIndex'')\<rparr> #
      map clusterOrderEntry citationsPost"
  let ?preview = "Call h (PreviewCluster
      \<lparr>cluster_id = None, cites = map (citeOf (sys (eng w))) (citationItems c)\<rparr> ?order outputFormat)"
  let ?p = "previewCitationCluster D randomString c citationsPre citationsPost outputFormat w"
  have expected: "previewCalls h (sys (eng w)) c citationsPre citationsPost outputFormat =
      referenceCalls h (sys (eng w)) (citedIDs c) @ [?preview]"
    by (simp add: previewCalls_def referenceCalls_def)
  from insertCitationReferencesLoop_prefix [OF live, of D "citationItems c'" "[]"]
  obtain calls rest where tr1: "trace (snd ?refs) = trace w @ calls"
    and pre: "calls @ rest = referenceCalls h (sys (eng w)) (citedIDs c)"
    and fin: "\<forall>cs. fst ?refs = Inr cs \<longrightarrow> rest = [] \<and> cs = map (citeOf (sys (eng w))) (citationItems c)"
    unfolding insertCitationReferences_def citedIDs_def items by auto
  have eng1: "eng (snd ?refs) = eng w"
    using insertCitationReferencesLoop_frame [of D "citationItems c'" "[]" w]
    by (simp add: insertCitationReferences_def)
  show ?thesis
  proof (cases "fst ?refs")
    case (Inl e)
    then have "?p = (Inl e, c', snd ?refs)"
      unfolding previewCitationCluster_def c'_def [symmetric] Let_def
      by (cases ?refs) simp
    then have "trace (snd (snd ?p)) = trace w @ calls"
      using tr1 by simp
    moreover have "calls @ (rest @ [?preview]) =
        previewCalls h (sys (eng w)) c citationsPre citationsPost outputFormat"
      using pre by (simp add: expected)
    ultimately show ?thesis
      by blast
  next
    case (Inr cs)
    with fin have rest: "rest = []" and cs: "cs = map (citeOf (sys (eng w))) (citationItems c)"
      by simp_all
    have order: "spliceInsert (length citationsPre)
          \<lparr>order_id = None, order_note = noteOf (getProp (properties c) ''noteIndex'')\<rparr>
          (getClusterOrder (citationsPre @ citationsPost)) = ?order"
      using spliceInsert_boundary [of "map clusterOrderEntry citationsPre" _ "map clusterOrderEntry citationsPost"]
      by (simp add: getClusterOrder_map)
    have live1: "driver (eng (snd ?refs)) = Some h"
      using eng1 live by simp
    have "trace (snd (snd ?p)) = trace (snd ?refs) @ [?preview]"
      unfolding previewCitationCluster_def c'_def [symmetric] Let_def
      using Inr live1
      by (cases ?refs) (simp add: props order cs driverCall_def Let_def split: option.splits)
    then have "trace (snd (snd ?p)) = trace w @ (calls @ [?preview])"
      using tr1 by simp
    moreover have "(calls @ [?preview]) @ [] =
        previewCalls h (sys (eng w)) c citationsPre citationsPost outputFormat"
      using pre rest by (simp add: expected)
    ultimately show ?thesis
      by blast
  qed
qed

lemma previewCitationCluster_unchanged:
  "eng (snd (snd (previewCitationCluster D randomString c citationsPre citationsPost outputFormat w))) = eng w \<and>
   (\<exists>calls.
      trace (snd (snd (previewCitationCluster D randomString c citationsPre citationsPost outputFormat w))) =
        trace w @ calls \<and>
      list_all referenceOrPreview calls) \<and>
   fst (snd (previewCitationCluster D randomString c citationsPre citationsPost outputFormat w)) =
     (if truthy (citationID c) then c else c\<lparr>citationID := JStr randomString\<rparr>)"
proof -
  define c' where "c' = (if \<not> truthy (citationID c) then c\<lparr>citationID := JStr randomString\<rparr> else c)"
  let ?refs = "insertCitationReferences D c' w"
  from insertCitationReferencesLoop_frame [of D "citationItems c'" "[]" w]
  obtain calls1 where eng1: "eng (snd ?refs) = eng w"
    and tr1: "trace (snd ?refs) = trace w @ calls1"
    and ok1: "list_all referenceOrPreview calls1"
    unfolding insertCitationReferences_def by blast
  let ?p = "previewCitationCluster D randomString c citationsPre citationsPost outputFormat w"
  show ?thesis
  proof (cases "fst ?refs")
    case (Inl e)
    then have "?p = (Inl e, c', snd ?refs)"
      unfolding previewCitationCluster_def c'_def [symmetric] Let_def
      by (cases ?refs) simp
    then show ?thesis
      using eng1 tr1 ok1 by (auto simp: c'_def)
  next
    case (Inr cites')
    define call where "call = PreviewCluster \<lparr>cluster_id = None, cites = cites'\<rparr>
        (spliceInsert (length citationsPre)
           \<lparr>order_id = None, order_note = noteOf (getProp (properties c') ''noteIndex'')\<rparr>
           (getClusterOrder (citationsPre @ citationsPost))) outputFormat"
    let ?w2 = "snd (driverCall D call (snd ?refs))"
    have p: "snd (snd ?p) = ?w2" "fst (snd ?p) = c'"
      unfolding previewCitationCluster_def c'_def [symmetric] Let_def call_def
      using Inr by (cases ?refs; simp split: prod.splits sum.splits)+
    have eng2: "eng ?w2 = eng w"
      using eng1 by (simp add: driverCall_eng)
    have "trace ?w2 = trace (snd ?refs) @
        (case driver (eng (snd ?refs)) of None \<Rightarrow> [] | Some h \<Rightarrow> [Call h call])"
      by (rule driverCall_trace)
    then obtain calls2 where tr2: "trace ?w2 = trace (snd ?refs) @ calls2"
      and ok2: "list_all referenceOrPreview calls2"
      by (cases "driver (eng (snd ?refs))") (auto simp: call_def)
    have "trace ?w2 = trace w @ (calls1 @ calls2)"
      using tr1 tr2 by simp
    moreover have "list_all referenceOrPreview (calls1 @ calls2)"
      using ok1 ok2 by simp
    ultimately have "\<exists>calls. trace ?w2 = trace w @ calls \<and> list_all referenceOrPreview calls"
      by blast
    then show ?thesis
      using p eng2 by (auto simp: c'_def)
  qed
qed

section \<open>The calls of a rebuild\<close>

lemma resetDriver_quiet:
  assumes quiet: "\<And>t ev. raises D t ev = None"
  shows "resetDriver D w =
    (Inr (),
     w\<lparr>trace := trace w @ releaseCalls (driver (eng w)) @
          [New (length (filter isNew (trace w))) (driverOptions (eng w))],
       eng := (eng w)\<lparr>driver := Some (length (filter isNew (trace w)))\<rparr>\<rparr>)"
  by (cases "driver (eng w)")
    (simp_all add: resetDriver_def thenDo_def ret_def driverCall_def newDriver_def Let_def
      releaseCalls_def quiet)

lemma insertCluster_quiet:
  assumes live: "driver (eng w) = Some h"
    and quiet: "\<And>t ev. raises D t ev = None"
    and found: "\<forall>citationItem \<in> set (citationItems c).
                  resolved (sys (eng w)) (getProp citationItem ''id'')"
  shows "insertCluster D c w =
    (Inr (clusterOf (sys (eng w)) c), w\<lparr>trace := trace w @ clusterCalls h (sys (eng w)) c\<rparr>)"
proof -
  let ?w1 = "w\<lparr>trace := trace w @ referenceCalls h (sys (eng w)) (citedIDs c)\<rparr>"
  have refs: "insertCitationReferences D c w =
      (Inr (map (citeOf (sys (eng w))) (citationItems c)), ?w1)"
    by (rule insertCitationReferences_quiet [OF live quiet found])
  have live1: "driver (eng ?w1) = Some h"
    using live by simp
  show ?thesis
    by (simp add: insertCluster_def thenDo_def ret_def refs Let_def
        driverCall_quiet [OF live1 quiet] clusterOf_def clusterCalls_def)
qed

lemma insertClusters_quiet:
  assumes "driver (eng w) = Some h" and "\<And>t ev. raises D t ev = None"
    and "\<forall>c \<in> set citations. \<forall>citationItem \<in> set (citationItems c).
           resolved (sys (eng w)) (getProp citationItem ''id'')"
  shows "insertClusters D citations w =
    (Inr (), w\<lparr>trace := trace w @ concat (map (clusterCalls h (sys (eng w))) citations)\<rparr>)"
  using assms
proof (induction citations arbitrary: w)
  case Nil
  then show ?case by simp
next
  case (Cons c citations)
  let ?w1 = "w\<lparr>trace := trace w @ clusterCalls h (sys (eng w)) c\<rparr>"
  have first: "insertCluster D c w = (Inr (clusterOf (sys (eng w)) c), ?w1)"
    using Cons.prems by (intro insertCluster_quiet) auto
  have rest: "insertClusters D citations ?w1 =
      (Inr (), ?w1\<lparr>trace := trace ?w1 @ concat (map (clusterCalls h (sys (eng ?w1))) citations)\<rparr>)"
    using Cons.prems by (intro Cons.IH) auto
  show ?case
    using first rest by simp
qed

lemma updateUncitedItemsLoop_quiet:
  assumes "driver (eng w) = Some h" and "\<And>t ev. raises D t ev = None"
    and "\<forall>itemID \<in> set itemIDs. resolved (sys (eng w)) itemID"
  shows "updateUncitedItemsLoop D itemIDs referenceIDs w =
    (Inr (referenceIDs @ map (referenceID (sys (eng w))) itemIDs),
     w\<lparr>trace := trace w @ referenceCalls h (sys (eng w)) itemIDs\<rparr>)"
  using assms
proof (induction itemIDs arbitrary: referenceIDs w)
  case Nil
  then show ?case by (simp add: referenceCalls_def)
next
  case (Cons itemID itemIDs)
  from Cons.prems(3) obtain item where item: "retrieveItem (sys (eng w)) itemID = Inr item"
    by (cases "retrieveItem (sys (eng w)) itemID") (auto simp: resolved_def)
  let ?w' = "w\<lparr>trace := trace w @ [Call h (InsertReference (stringifyId item))]\<rparr>"
  have call: "driverCall D (InsertReference (stringifyId item)) w = (Inr (), ?w')"
    using Cons.prems(1,2) by (rule driverCall_quiet)
  have ih: "updateUncitedItemsLoop D itemIDs (referenceIDs @ [getProp (stringifyId item) ''id'']) ?w' =
    (Inr ((referenceIDs @ [getProp (stringifyId item) ''id'']) @ map (referenceID (sys (eng ?w'))) itemIDs),
     ?w'\<lparr>trace := trace ?w' @ referenceCalls h (sys (eng ?w')) itemIDs\<rparr>)"
    using Cons.prems by (intro Cons.IH) auto
  show ?case
    using item call ih by (simp add: referenceID_def referenceOf_def referenceCalls_def Let_def)
qed

lemma updateUncitedItems_quiet:
  assumes live: "driver (eng w) = Some h"
    and quiet: "\<And>t ev. raises D t ev = None"
    and found: "\<forall>itemID \<in> set itemIDs. resolved (sys (eng w)) itemID"
  shows "updateUncitedItems D itemIDs w =
    (Inr (),
     w\<lparr>trace := trace w @ referenceCalls h (sys (eng w)) itemIDs @
          [Call h (IncludeUncited (map (referenceID (sys (eng w))) itemIDs))]\<rparr>)"
proof -
  let ?w1 = "w\<lparr>trace := trace w @ referenceCalls h (sys (eng w)) itemIDs\<rparr>"
  have loop: "updateUncitedItemsLoop D itemIDs [] w =
      (Inr (map (referenceID (sys (eng w))) itemIDs), ?w1)"
    using updateUncitedItemsLoop_quiet [OF live quiet found, of "[]"] by simp
  have live1: "driver (eng ?w1) = Some h"
    using live by simp
  show ?thesis
    by (simp add: updateUncitedItems_def thenDo_def loop driverCall_quiet [OF live1 quiet])
qed

lemma referenceOf_resolved:
  assumes "retrieveItem s itemID = Inr item"
  shows "referenceOf s itemID = stringifyId item"
    and "referenceID s itemID = JStr (toString (getProp item ''id''))"
  using assms by (simp_all add: referenceOf_def referenceID_def getProp_stringifyId)

section \<open>The bibliography metadata\<close>

lemma distinct_setProp:
  "distinct (map fst obj) \<Longrightarrow> distinct (map fst (setProp obj k v))"
  by (simp add: setProp_def distinct_update)

lemma distinct_assign:
  "distinct (map fst target) \<Longrightarrow> distinct (map fst (assign target source))"
proof (induction source arbitrary: target)
  case Nil
  then show ?case by (simp add: assign_def)
next
  case (Cons p source)
  obtain k v where p: "p = (k, v)" by (cases p)
  have "assign target (p # source) = assign (setProp target k v) source"
    by (simp add: assign_def p)
  then show ?case
    using Cons.IH [of "setProp target k v"] Cons.prems by (simp add: distinct_setProp)
qed

lemma distinct_translateMeta:
  "distinct (map fst m) \<Longrightarrow> distinct (map fst (translateMeta m))"
  by (simp add: translateMeta_def Let_def distinct_setProp distinct_assign)

lemma map_of_translateMeta:
  "map_of (translateMeta m) =
     (map_of m ++
      map_of [(''maxoffset'', getProp m ''maxOffset''),
              (''linespacing'', getProp m ''lineSpacing''),
              (''entryspacing'', getProp m ''entrySpacing''),
              (''hangingindent'', getProp m ''hangingIndent''),
              (''bibstart'', andMember (getProp m ''formatMeta'') ''markupPre''),
              (''bibend'', andMember (getProp m ''formatMeta'') ''markupPost'')])
     (''second-field-align'' \<mapsto> getProp m ''secondFieldAlign'')"
proof -
  let ?names = "[(''maxoffset'', getProp m ''maxOffset''),
              (''linespacing'', getProp m ''lineSpacing''),
              (''entryspacing'', getProp m ''entrySpacing''),
              (''hangingindent'', getProp m ''hangingIndent''),
              (''bibstart'', andMember (getProp m ''formatMeta'') ''markupPre''),
              (''bibend'', andMember (getProp m ''formatMeta'') ''markupPost'')]"
  have d: "distinct (map fst ?names)"
    by simp
  have merged: "map_of (assign m ?names) = map_of m ++ map_of ?names"
    by (rule map_of_assign [OF d])
  have "map_of ?names ''secondFieldAlign'' = None"
    by simp
  then have "(map_of m ++ map_of ?names) ''secondFieldAlign'' = map_of m ''secondFieldAlign''"
    by (simp only: map_add_def option.case)
  then have "map_of (assign m ?names) ''secondFieldAlign'' = map_of m ''secondFieldAlign''"
    by (simp only: merged)
  then have align: "getProp (assign m ?names) ''secondFieldAlign'' = getProp m ''secondFieldAlign''"
    unfolding getProp_def [of "assign m ?names"] getProp_def [of m "''secondFieldAlign''"]
    by (rule arg_cong)
  show ?thesis
    unfolding translateMeta_def Let_def map_of_setProp align merged ..
qed

lemma translateMeta_legacy:
  "map_of (translateMeta m) ''maxoffset'' = Some (getProp m ''maxOffset'')"
  "map_of (translateMeta m) ''linespacing'' = Some (getProp m ''lineSpacing'')"
  "map_of (translateMeta m) ''entryspacing'' = Some (getProp m ''entrySpacing'')"
  "map_of (translateMeta m) ''hangingindent'' = Some (getProp m ''hangingIndent'')"
  "map_of (translateMeta m) ''second-field-align'' = Some (getProp m ''secondFieldAlign'')"
  "map_of (translateMeta m) ''bibstart'' = Some (andMember (getProp m ''formatMeta'') ''markupPre'')"
  "map_of (translateMeta m) ''bibend'' = Some (andMember (getProp m ''formatMeta'') ''markupPost'')"
  by (simp_all add: map_of_translateMeta)

lemma translateMeta_retains:
  assumes "key \<notin> set legacyNames"
  shows "map_of (translateMeta m) key = map_of m key"
  using assms by (simp add: map_of_translateMeta legacyNames_def map_add_def)

lemma translateMeta_entry_ids:
  "map_of (translateMeta m) ''entry_ids'' = map_of m ''entry_ids''"
  by (rule translateMeta_retains) (simp add: legacyNames_def)

lemma makeBibliography_quiet:
  assumes live: "driver (eng w) = Some h"
    and quiet: "\<And>t ev. raises D t ev = None"
  shows "makeBibliography D w =
    (Inr (assign
            [(''entry_ids'',
              JArr (map (\<lambda>entry. JArr [JStr (entry_id entry)])
                (makeBibliographyResult D (trace w @ [Call h BibliographyMeta, Call h MakeBibliography]))))]
            (translateMeta (bibliographyMetaResult D (trace w @ [Call h BibliographyMeta]))),
          formatEntries (format (eng w))
            (makeBibliographyResult D (trace w @ [Call h BibliographyMeta, Call h MakeBibliography]))),
     w\<lparr>trace := trace w @ [Call h BibliographyMeta, Call h MakeBibliography]\<rparr>)"
proof -
  let ?w1 = "w\<lparr>trace := trace w @ [Call h BibliographyMeta]\<rparr>"
  have first: "driverCall D BibliographyMeta w = (Inr (), ?w1)"
    by (rule driverCall_quiet [OF live quiet])
  have live1: "driver (eng ?w1) = Some h"
    using live by simp
  have second: "driverCall D MakeBibliography ?w1 =
      (Inr (), ?w1\<lparr>trace := trace ?w1 @ [Call h MakeBibliography]\<rparr>)"
    by (rule driverCall_quiet [OF live1 quiet])
  show ?thesis
    by (simp add: makeBibliography_def thenDo_def first second Let_def)
qed

lemma map_of_returned_meta:
  assumes "distinct (map fst m)"
  shows "map_of (assign [(''entry_ids'', ids)] (translateMeta m)) =
    [''entry_ids'' \<mapsto> ids] ++ map_of (translateMeta m)"
  using map_of_assign [OF distinct_translateMeta [OF assms], of "[(''entry_ids'', ids)]"]
  by simp

section \<open>Properties of the session\<close>

text \<open>
  C1. With a live driver that throws on no call and a provider that returns a record for
  every cited item, \<^verbatim>\<open>_insertCitationReferences\<close> returns one cite for each cited item, in
  the order of the items. When an item does not set both \<^verbatim>\<open>suppress-author\<close> and
  \<^verbatim>\<open>author-only\<close>, its cite has the identifier of the record the provider returned, in
  string form, the locator, label, prefix and suffix of the item where they are truthy,
  and the mode \<^verbatim>\<open>SuppressAuthor\<close>, \<^verbatim>\<open>AuthorOnly\<close> or none according to the two flags.
\<close>

theorem insertCitationReferences_cites:
  assumes live: "driver (eng w) = Some h"
    and quiet: "\<And>t ev. raises D t ev = None"
    and found: "\<forall>citationItem \<in> set (citationItems c).
                  resolved (sys (eng w)) (getProp citationItem ''id'')"
    and exclusive: "\<forall>citationItem \<in> set (citationItems c).
                  \<not> (truthy (getProp citationItem ''suppress-author'') \<and>
                     truthy (getProp citationItem ''author-only''))"
  shows "\<exists>cs. fst (insertCitationReferences D c w) = Inr cs \<and>
           length cs = length (citationItems c) \<and>
           (\<forall>i < length (citationItems c). \<exists>item.
              retrieveItem (sys (eng w)) (getProp (citationItems c ! i) ''id'') = Inr item \<and>
              citeAsDescribed (citationItems c ! i) item (cs ! i))"
proof -
  let ?cs = "map (citeOf (sys (eng w))) (citationItems c)"
  have result: "fst (insertCitationReferences D c w) = Inr ?cs"
    using insertCitationReferences_quiet [OF live quiet found] by simp
  have each: "\<exists>item. retrieveItem (sys (eng w)) (getProp (citationItems c ! i) ''id'') = Inr item \<and>
      citeAsDescribed (citationItems c ! i) item (?cs ! i)"
    if i: "i < length (citationItems c)" for i
  proof -
    let ?ci = "citationItems c ! i"
    have mem: "?ci \<in> set (citationItems c)"
      using i by simp
    from found mem obtain item where
      item: "retrieveItem (sys (eng w)) (getProp ?ci ''id'') = Inr item"
      by (cases "retrieveItem (sys (eng w)) (getProp ?ci ''id'')") (auto simp: resolved_def)
    have "?cs ! i = makeCite ?ci (stringifyId item)"
      using i item by (simp add: citeOf_def referenceOf_def)
    moreover have "citeAsDescribed ?ci item (makeCite ?ci (stringifyId item))"
      using exclusive mem by (intro makeCite_asDescribed) blast
    ultimately show ?thesis
      using item by auto
  qed
  show ?thesis
    using result each by (intro exI [of _ ?cs]) simp
qed

theorem insertCitationReferences_cites_witness:
  "\<exists>cs. fst (insertCitationReferences quietDriver exampleCitation exampleWorld) = Inr cs \<and>
     length cs = 2 \<and>
     map_of (cs ! 0) ''id'' = Some (JStr ''7'') \<and>
     map_of (cs ! 0) ''locator'' = Some (JStr ''12'') \<and>
     map_of (cs ! 0) ''mode'' = Some (JStr ''SuppressAuthor'') \<and>
     map_of (cs ! 1) ''id'' = Some (JStr ''8'') \<and>
     map_of (cs ! 1) ''prefix'' = Some (JStr ''see '') \<and>
     map_of (cs ! 1) ''mode'' = Some (JStr ''AuthorOnly'')"
proof -
  have live: "driver (eng exampleWorld) = Some 0"
    by (simp add: exampleWorld_def)
  have quiet: "\<And>t ev. raises quietDriver t ev = None"
    by (simp add: quietDriver_def)
  have found: "\<forall>citationItem \<in> set (citationItems exampleCitation).
      resolved (sys (eng exampleWorld)) (getProp citationItem ''id'')"
    by (simp add: exampleCitation_def exampleWorld_def exampleSystem_def resolved_def getProp_def)
  have exclusive: "\<forall>citationItem \<in> set (citationItems exampleCitation).
      \<not> (truthy (getProp citationItem ''suppress-author'') \<and>
         truthy (getProp citationItem ''author-only''))"
    by (simp add: exampleCitation_def getProp_def)
  from insertCitationReferences_cites [OF live quiet found exclusive]
  obtain cs where cs: "fst (insertCitationReferences quietDriver exampleCitation exampleWorld) = Inr cs"
    and len: "length cs = length (citationItems exampleCitation)"
    and each: "\<forall>i < length (citationItems exampleCitation). \<exists>item.
        retrieveItem (sys (eng exampleWorld)) (getProp (citationItems exampleCitation ! i) ''id'') = Inr item \<and>
        citeAsDescribed (citationItems exampleCitation ! i) item (cs ! i)"
    by blast
  have n: "length (citationItems exampleCitation) = 2"
    by (simp add: exampleCitation_def)
  from each n have "\<exists>item.
        retrieveItem (sys (eng exampleWorld)) (getProp (citationItems exampleCitation ! 0) ''id'') = Inr item \<and>
        citeAsDescribed (citationItems exampleCitation ! 0) item (cs ! 0)"
    by simp
  then have first: "map_of (cs ! 0) ''id'' = Some (JStr ''7'') \<and>
      map_of (cs ! 0) ''locator'' = Some (JStr ''12'') \<and>
      map_of (cs ! 0) ''mode'' = Some (JStr ''SuppressAuthor'')"
    by (auto simp: exampleCitation_def exampleWorld_def exampleSystem_def getProp_def
        citeAsDescribed_def decimal.simps digitChar_def)
  from each n have "\<exists>item.
        retrieveItem (sys (eng exampleWorld)) (getProp (citationItems exampleCitation ! 1) ''id'') = Inr item \<and>
        citeAsDescribed (citationItems exampleCitation ! 1) item (cs ! 1)"
    by simp
  then have second: "map_of (cs ! 1) ''id'' = Some (JStr ''8'') \<and>
      map_of (cs ! 1) ''prefix'' = Some (JStr ''see '') \<and>
      map_of (cs ! 1) ''mode'' = Some (JStr ''AuthorOnly'')"
    by (auto simp: exampleCitation_def exampleWorld_def exampleSystem_def getProp_def
        citeAsDescribed_def decimal.simps digitChar_def)
  show ?thesis
    using cs len n first second by (intro exI [of _ cs]) simp
qed

text \<open>
  C2. With a live driver that throws on no call and a provider that returns a record for
  every cited item, \<^verbatim>\<open>previewCitationCluster\<close> ends with one \<^verbatim>\<open>previewCluster\<close> call, and
  the order it submits has one entry for each pair of \<^verbatim>\<open>citationsPre\<close>, then the entry of
  the previewed cluster, then one entry for each pair of \<^verbatim>\<open>citationsPost\<close>: its length
  is the two lengths and one; the entry at an index below the length of \<^verbatim>\<open>citationsPre\<close>
  has the identifier of the pair at that index and its note index as note; the entries
  above are those of the pairs of \<^verbatim>\<open>citationsPost\<close> in the same way; and the entry at the
  length of \<^verbatim>\<open>citationsPre\<close> has no identifier and the citation's note index as note.
  A note index that is a string is parsed to an integer, and a note index that is zero,
  parses to zero or to no integer, or is \<open>undefined\<close>, \<open>null\<close>, \<open>NaN\<close> or \<open>false\<close>
  leaves the entry without a note.
\<close>

theorem previewCitationCluster_order:
  assumes live: "driver (eng w) = Some h"
    and quiet: "\<And>t ev. raises D t ev = None"
    and found: "\<forall>citationItem \<in> set (citationItems c).
                  resolved (sys (eng w)) (getProp citationItem ''id'')"
  shows "\<exists>calls cluster allClusterOrder.
      trace (snd (snd (previewCitationCluster D randomString c citationsPre citationsPost outputFormat w))) =
        trace w @ calls @ [Call h (PreviewCluster cluster allClusterOrder outputFormat)] \<and>
      length allClusterOrder = length citationsPre + 1 + length citationsPost \<and>
      (\<forall>i < length citationsPre.
         allClusterOrder ! i =
           \<lparr>order_id = Some (fst (citationsPre ! i)),
            order_note = noteAsDescribed (snd (citationsPre ! i))\<rparr>) \<and>
      allClusterOrder ! length citationsPre =
        \<lparr>order_id = None,
         order_note = noteAsDescribed (getProp (properties c) ''noteIndex'')\<rparr> \<and>
      (\<forall>j < length citationsPost.
         allClusterOrder ! (length citationsPre + 1 + j) =
           \<lparr>order_id = Some (fst (citationsPost ! j)),
            order_note = noteAsDescribed (snd (citationsPost ! j))\<rparr>)"
proof -
  let ?entry = "\<lparr>order_id = None, order_note = noteOf (getProp (properties c) ''noteIndex'')\<rparr>"
  let ?order = "map clusterOrderEntry citationsPre @ ?entry # map clusterOrderEntry citationsPost"
  let ?cluster = "\<lparr>cluster_id = None, cites = map (citeOf (sys (eng w))) (citationItems c)\<rparr>"
  have tr: "trace (snd (snd (previewCitationCluster D randomString c citationsPre citationsPost outputFormat w))) =
      trace w @ referenceCalls h (sys (eng w)) (citedIDs c) @
        [Call h (PreviewCluster ?cluster ?order outputFormat)]"
    using previewCitationCluster_quiet [OF live quiet found] by simp
  have len: "length ?order = length citationsPre + 1 + length citationsPost"
    by simp
  have before: "\<forall>i < length citationsPre.
      ?order ! i = \<lparr>order_id = Some (fst (citationsPre ! i)),
                     order_note = noteAsDescribed (snd (citationsPre ! i))\<rparr>"
    by (simp add: nth_append clusterOrderEntry_described)
  have at: "?order ! length citationsPre =
      \<lparr>order_id = None, order_note = noteAsDescribed (getProp (properties c) ''noteIndex'')\<rparr>"
    by (simp add: nth_append noteOf_described)
  have after: "\<forall>j < length citationsPost.
      ?order ! (length citationsPre + 1 + j) =
        \<lparr>order_id = Some (fst (citationsPost ! j)),
         order_note = noteAsDescribed (snd (citationsPost ! j))\<rparr>"
    by (simp add: nth_append clusterOrderEntry_described)
  show ?thesis
    using tr len before at after
    by (intro exI [of _ "referenceCalls h (sys (eng w)) (citedIDs c)"] exI [of _ ?cluster]
        exI [of _ ?order]) blast
qed

theorem previewCitationCluster_order_witness:
  "\<exists>calls cluster allClusterOrder.
      trace (snd (snd (previewCitationCluster quietDriver ''abcdefghij'' exampleCitation
        [(JStr ''a'', JNum 1), (JStr ''b'', JStr ''0'')]
        [(JStr ''c'', JStr ''x''), (JStr ''d'', JUndefined), (JStr ''e'', JStr '' 12'')]
        (JStr ''html'') exampleWorld))) =
        trace exampleWorld @ calls @ [Call 0 (PreviewCluster cluster allClusterOrder (JStr ''html''))] \<and>
      length allClusterOrder = 6 \<and>
      allClusterOrder ! 0 = \<lparr>order_id = Some (JStr ''a''), order_note = Some (JNum 1)\<rparr> \<and>
      allClusterOrder ! 1 = \<lparr>order_id = Some (JStr ''b''), order_note = None\<rparr> \<and>
      allClusterOrder ! 2 = \<lparr>order_id = None, order_note = Some (JNum 3)\<rparr> \<and>
      allClusterOrder ! 3 = \<lparr>order_id = Some (JStr ''c''), order_note = None\<rparr> \<and>
      allClusterOrder ! 4 = \<lparr>order_id = Some (JStr ''d''), order_note = None\<rparr> \<and>
      allClusterOrder ! 5 = \<lparr>order_id = Some (JStr ''e''), order_note = Some (JNum 12)\<rparr>"
proof -
  let ?pre = "[(JStr ''a'', JNum 1), (JStr ''b'', JStr ''0'')]"
  let ?post = "[(JStr ''c'', JStr ''x''), (JStr ''d'', JUndefined), (JStr ''e'', JStr '' 12'')]"
  have live: "driver (eng exampleWorld) = Some 0"
    by (simp add: exampleWorld_def)
  have quiet: "\<And>t ev. raises quietDriver t ev = None"
    by (simp add: quietDriver_def)
  have found: "\<forall>citationItem \<in> set (citationItems exampleCitation).
      resolved (sys (eng exampleWorld)) (getProp citationItem ''id'')"
    by (simp add: exampleCitation_def exampleWorld_def exampleSystem_def resolved_def getProp_def)
  have parsed: "parseInt ''3'' = JNum 3" "parseInt ''x'' = JNaN" "parseInt ''0'' = JNum 0"
    "parseInt '' 12'' = JNum 12"
    by (simp_all add: parseInt_def stripSign_def stripPrefix_def digitValue_def isWhiteSpace_def)
  have noted: "noteAsDescribed (JNum 1) = Some (JNum 1)" "noteAsDescribed (JStr ''0'') = None"
    "noteAsDescribed (JStr ''3'') = Some (JNum 3)" "noteAsDescribed (JStr ''x'') = None"
    "noteAsDescribed JUndefined = None" "noteAsDescribed (JStr '' 12'') = Some (JNum 12)"
    by (simp_all add: noteAsDescribed_def parsed)
  have note3: "getProp (properties exampleCitation) ''noteIndex'' = JStr ''3''"
    by (simp add: exampleCitation_def getProp_def)
  from previewCitationCluster_order [OF live quiet found,
      of "''abcdefghij''" ?pre ?post "JStr ''html''"]
  obtain calls cluster allClusterOrder where
    tr: "trace (snd (snd (previewCitationCluster quietDriver ''abcdefghij'' exampleCitation
        ?pre ?post (JStr ''html'') exampleWorld))) =
        trace exampleWorld @ calls @ [Call 0 (PreviewCluster cluster allClusterOrder (JStr ''html''))]"
    and len: "length allClusterOrder = length ?pre + 1 + length ?post"
    and before: "\<forall>i < length ?pre.
        allClusterOrder ! i =
          \<lparr>order_id = Some (fst (?pre ! i)), order_note = noteAsDescribed (snd (?pre ! i))\<rparr>"
    and at: "allClusterOrder ! length ?pre =
        \<lparr>order_id = None,
         order_note = noteAsDescribed (getProp (properties exampleCitation) ''noteIndex'')\<rparr>"
    and after: "\<forall>j < length ?post.
        allClusterOrder ! (length ?pre + 1 + j) =
          \<lparr>order_id = Some (fst (?post ! j)), order_note = noteAsDescribed (snd (?post ! j))\<rparr>"
    by blast
  have l6: "length allClusterOrder = 6"
    using len by simp
  have a0: "allClusterOrder ! 0 = \<lparr>order_id = Some (JStr ''a''), order_note = Some (JNum 1)\<rparr>"
    using before [rule_format, of 0] by (simp add: noted)
  have a1: "allClusterOrder ! 1 = \<lparr>order_id = Some (JStr ''b''), order_note = None\<rparr>"
    using before [rule_format, of 1] by (simp add: noted)
  have a2: "allClusterOrder ! 2 = \<lparr>order_id = None, order_note = Some (JNum 3)\<rparr>"
    using at by (simp add: note3 noted eval_nat_numeral)
  have a3: "allClusterOrder ! 3 = \<lparr>order_id = Some (JStr ''c''), order_note = None\<rparr>"
    using after [rule_format, of 0] by (simp add: noted eval_nat_numeral)
  have a4: "allClusterOrder ! 4 = \<lparr>order_id = Some (JStr ''d''), order_note = None\<rparr>"
    using after [rule_format, of 1] by (simp add: noted eval_nat_numeral)
  have a5: "allClusterOrder ! 5 = \<lparr>order_id = Some (JStr ''e''), order_note = Some (JNum 12)\<rparr>"
    using after [rule_format, of 2] by (simp add: noted eval_nat_numeral)
  show ?thesis
    using tr l6 a0 a1 a2 a3 a4 a5 by blast
qed

text \<open>
  C3, as the code has it. \<^verbatim>\<open>previewCitationCluster\<close> leaves every field of the session as
  it was. The citation passed in is left as it was when its \<^verbatim>\<open>citationID\<close> is truthy and
  gets the generated string otherwise. The calls it issues to the driver are registrations
  of references and the preview itself: no cluster is inserted, the document order is not
  set, the format is not switched and no handle is freed or constructed. Without a handle
  it issues no call. With the handle \<open>h\<close> it issues, on that handle, an initial part of
  this sequence: one registration for each cited item, in the order of the items, of the
  record the provider returned with its \<^verbatim>\<open>id\<close> in string form, and then one
  \<^verbatim>\<open>previewCluster\<close> call; and it issues the whole sequence when the driver throws on no
  call and the provider returns a record for every cited item.
\<close>

theorem previewCitationCluster_frame:
  assumes p: "p = previewCitationCluster D randomString c citationsPre citationsPost outputFormat w"
  shows "eng (snd (snd p)) = eng w \<and>
   fst (snd p) = (if truthy (citationID c) then c else c\<lparr>citationID := JStr randomString\<rparr>) \<and>
   (\<exists>calls. trace (snd (snd p)) = trace w @ calls \<and> list_all referenceOrPreview calls) \<and>
   (driver (eng w) = None \<longrightarrow> trace (snd (snd p)) = trace w) \<and>
   (\<forall>h. driver (eng w) = Some h \<longrightarrow>
      (\<exists>calls rest.
         trace (snd (snd p)) = trace w @ calls \<and>
         calls @ rest =
           map (\<lambda>itemID. Call h (InsertReference (referenceOf (sys (eng w)) itemID))) (citedIDs c) @
           [Call h (PreviewCluster
              \<lparr>cluster_id = None, cites = map (citeOf (sys (eng w))) (citationItems c)\<rparr>
              (map clusterOrderEntry citationsPre @
               \<lparr>order_id = None, order_note = noteOf (getProp (properties c) ''noteIndex'')\<rparr> #
               map clusterOrderEntry citationsPost)
              outputFormat)])) \<and>
   (\<forall>h. driver (eng w) = Some h \<longrightarrow>
      (\<forall>t ev. raises D t ev = None) \<longrightarrow>
      (\<forall>citationItem \<in> set (citationItems c).
         resolved (sys (eng w)) (getProp citationItem ''id'')) \<longrightarrow>
      trace (snd (snd p)) =
        trace w @
        map (\<lambda>itemID. Call h (InsertReference (referenceOf (sys (eng w)) itemID))) (citedIDs c) @
        [Call h (PreviewCluster
           \<lparr>cluster_id = None, cites = map (citeOf (sys (eng w))) (citationItems c)\<rparr>
           (map clusterOrderEntry citationsPre @
            \<lparr>order_id = None, order_note = noteOf (getProp (properties c) ''noteIndex'')\<rparr> #
            map clusterOrderEntry citationsPost)
           outputFormat)] \<and>
      (\<forall>citationItem \<in> set (citationItems c). \<exists>item.
         retrieveItem (sys (eng w)) (getProp citationItem ''id'') = Inr item \<and>
         referenceOf (sys (eng w)) (getProp citationItem ''id'') =
           setProp item ''id'' (JStr (toString (getProp item ''id'')))))"
proof -
  let ?expected = "\<lambda>h.
      map (\<lambda>itemID. Call h (InsertReference (referenceOf (sys (eng w)) itemID))) (citedIDs c) @
      [Call h (PreviewCluster
         \<lparr>cluster_id = None, cites = map (citeOf (sys (eng w))) (citationItems c)\<rparr>
         (map clusterOrderEntry citationsPre @
          \<lparr>order_id = None, order_note = noteOf (getProp (properties c) ''noteIndex'')\<rparr> #
          map clusterOrderEntry citationsPost)
         outputFormat)]"
  have expected: "previewCalls h (sys (eng w)) c citationsPre citationsPost outputFormat = ?expected h"
    for h
    by (simp add: previewCalls_def)
  note session = previewCitationCluster_unchanged
      [of D randomString c citationsPre citationsPost outputFormat w, folded p]
  have none: "trace (snd (snd p)) = trace w" if "driver (eng w) = None"
    unfolding p by (rule previewCitationCluster_no_driver [OF that])
  have part: "\<exists>calls rest. trace (snd (snd p)) = trace w @ calls \<and> calls @ rest = ?expected h"
    if "driver (eng w) = Some h" for h
    using previewCitationCluster_prefix [OF that, of D randomString c citationsPre citationsPost outputFormat]
    unfolding p expected .
  have whole: "trace (snd (snd p)) = trace w @ ?expected h"
    if live: "driver (eng w) = Some h" and quiet: "\<forall>t ev. raises D t ev = None"
      and found: "\<forall>citationItem \<in> set (citationItems c).
        resolved (sys (eng w)) (getProp citationItem ''id'')" for h
  proof -
    have q: "\<And>t ev. raises D t ev = None"
      using quiet by simp
    show ?thesis
      unfolding p using previewCitationCluster_quiet [OF live q found]
      by (simp add: referenceCalls_def)
  qed
  have records: "\<exists>item. retrieveItem (sys (eng w)) (getProp citationItem ''id'') = Inr item \<and>
      referenceOf (sys (eng w)) (getProp citationItem ''id'') =
        setProp item ''id'' (JStr (toString (getProp item ''id'')))"
    if found: "\<forall>citationItem \<in> set (citationItems c).
        resolved (sys (eng w)) (getProp citationItem ''id'')"
      and mem: "citationItem \<in> set (citationItems c)" for citationItem
  proof -
    from found mem obtain item where
      item: "retrieveItem (sys (eng w)) (getProp citationItem ''id'') = Inr item"
      by (cases "retrieveItem (sys (eng w)) (getProp citationItem ''id'')") (auto simp: resolved_def)
    show ?thesis
      using item referenceOf_resolved(1) [OF item] by (simp add: stringifyId_def)
  qed
  show ?thesis
    using session none part whole records by blast
qed

theorem previewCitationCluster_frame_witness:
  "eng (snd (snd (previewCitationCluster quietDriver ''abcdefghij'' unnamedCitation
      [] [] (JStr ''html'') exampleWorld))) = eng exampleWorld \<and>
   fst (snd (previewCitationCluster quietDriver ''abcdefghij'' unnamedCitation
      [] [] (JStr ''html'') exampleWorld)) = unnamedCitation\<lparr>citationID := JStr ''abcdefghij''\<rparr> \<and>
   trace (snd (snd (previewCitationCluster quietDriver ''abcdefghij'' unnamedCitation
      [] [] (JStr ''html'') exampleWorld))) =
     [New 0 exampleOptions,
      Call 0 (InsertReference [(''id'', JStr ''7''), (''type'', JStr ''book'')]),
      Call 0 (InsertReference [(''id'', JStr ''8''), (''type'', JStr ''book'')]),
      Call 0 (PreviewCluster
        \<lparr>cluster_id = None,
         cites = [[(''id'', JStr ''7''), (''locator'', JStr ''12''), (''locators'', JUndefined),
                   (''mode'', JStr ''SuppressAuthor'')],
                  [(''id'', JStr ''8''), (''locator'', JUndefined), (''locators'', JUndefined),
                   (''mode'', JStr ''AuthorOnly''), (''prefix'', JStr ''see '')]]\<rparr>
        [\<lparr>order_id = None, order_note = Some (JNum 3)\<rparr>]
        (JStr ''html''))]"
proof -
  let ?p = "previewCitationCluster quietDriver ''abcdefghij'' unnamedCitation
      [] [] (JStr ''html'') exampleWorld"
  have live: "driver (eng exampleWorld) = Some 0"
    by (simp add: exampleWorld_def)
  have quiet: "\<forall>t ev. raises quietDriver t ev = None"
    by (simp add: quietDriver_def)
  have found: "\<forall>citationItem \<in> set (citationItems unnamedCitation).
      resolved (sys (eng exampleWorld)) (getProp citationItem ''id'')"
    by (simp add: unnamedCitation_def exampleCitation_def exampleWorld_def exampleSystem_def
        resolved_def getProp_def)
  have falsy: "\<not> truthy (citationID unnamedCitation)"
    by (simp add: unnamedCitation_def)
  note frame = previewCitationCluster_frame [OF refl,
      of quietDriver "''abcdefghij''" unnamedCitation "[]" "[]" "JStr ''html''" exampleWorld]
  have session: "eng (snd (snd ?p)) = eng exampleWorld"
    using frame by blast
  have citation: "fst (snd ?p) = unnamedCitation\<lparr>citationID := JStr ''abcdefghij''\<rparr>"
    using frame falsy by simp
  have "trace (snd (snd ?p)) =
      trace exampleWorld @
      map (\<lambda>itemID. Call 0 (InsertReference (referenceOf (sys (eng exampleWorld)) itemID)))
        (citedIDs unnamedCitation) @
      [Call 0 (PreviewCluster
         \<lparr>cluster_id = None,
          cites = map (citeOf (sys (eng exampleWorld))) (citationItems unnamedCitation)\<rparr>
         (map clusterOrderEntry [] @
          \<lparr>order_id = None, order_note = noteOf (getProp (properties unnamedCitation) ''noteIndex'')\<rparr> #
          map clusterOrderEntry [])
         (JStr ''html''))]"
    using frame live quiet found by blast
  also have "\<dots> =
     [New 0 exampleOptions,
      Call 0 (InsertReference [(''id'', JStr ''7''), (''type'', JStr ''book'')]),
      Call 0 (InsertReference [(''id'', JStr ''8''), (''type'', JStr ''book'')]),
      Call 0 (PreviewCluster
        \<lparr>cluster_id = None,
         cites = [[(''id'', JStr ''7''), (''locator'', JStr ''12''), (''locators'', JUndefined),
                   (''mode'', JStr ''SuppressAuthor'')],
                  [(''id'', JStr ''8''), (''locator'', JUndefined), (''locators'', JUndefined),
                   (''mode'', JStr ''AuthorOnly''), (''prefix'', JStr ''see '')]]\<rparr>
        [\<lparr>order_id = None, order_note = Some (JNum 3)\<rparr>]
        (JStr ''html''))]"
    by code_simp
  finally show ?thesis
    using session citation by simp
qed

text \<open>
  C3 as stated fails: previewing the example citation before it has an identifier writes
  the generated identifier into the citation and registers both cited references with
  the driver.
\<close>

theorem previewCitationCluster_not_pure:
  "citationID unnamedCitation = JUndefined \<and>
   citationID (fst (snd (previewCitationCluster quietDriver ''abcdefghij'' unnamedCitation
      [] [] (JStr ''html'') exampleWorld))) = JStr ''abcdefghij'' \<and>
   trace exampleWorld = [New 0 exampleOptions] \<and>
   trace (snd (snd (previewCitationCluster quietDriver ''abcdefghij'' unnamedCitation
      [] [] (JStr ''html'') exampleWorld))) =
     [New 0 exampleOptions,
      Call 0 (InsertReference [(''id'', JStr ''7''), (''type'', JStr ''book'')]),
      Call 0 (InsertReference [(''id'', JStr ''8''), (''type'', JStr ''book'')]),
      Call 0 (PreviewCluster
        \<lparr>cluster_id = None,
         cites = [[(''id'', JStr ''7''), (''locator'', JStr ''12''), (''locators'', JUndefined),
                   (''mode'', JStr ''SuppressAuthor'')],
                  [(''id'', JStr ''8''), (''locator'', JUndefined), (''locators'', JUndefined),
                   (''mode'', JStr ''AuthorOnly''), (''prefix'', JStr ''see '')]]\<rparr>
        [\<lparr>order_id = None, order_note = Some (JNum 3)\<rparr>]
        (JStr ''html''))]"
  by code_simp

text \<open>
  C4. With a driver that throws on no call and a provider that returns a record for every
  cited and every uncited item, \<^verbatim>\<open>rebuildProcessorState\<close> returns normally and issues, after
  the calls made before it, exactly these calls in this order: the release of the handle
  the session held, if it held one; the construction of a new handle with the session's
  style, the new format and the locale override the session is set to; for each citation
  in list order, the registration of its references and the insertion of its cluster; the
  cluster order of the list's pairs of identifier and note index, in list order; the
  registration of the uncited items and the restriction to their identifiers, as
  \<^verbatim>\<open>updateUncitedItems\<close> issues them. The session then holds the new handle and the new
  format, and its other fields are as before.
\<close>

theorem rebuildProcessorState_sequence:
  fixes w :: world
  assumes quiet: "\<And>t ev. raises D t ev = None"
    and cited: "\<forall>c \<in> set citations. \<forall>citationItem \<in> set (citationItems c).
                  resolved (sys (eng w)) (getProp citationItem ''id'')"
    and uncited: "\<forall>itemID \<in> set uncitedIDs. resolved (sys (eng w)) itemID"
  shows "rebuildProcessorState D citations format' uncitedIDs w =
    (Inr (),
     \<lparr>eng = (eng w)\<lparr>format := format', driver := Some (length (filter isNew (trace w)))\<rparr>,
      trace = trace w @
        releaseCalls (driver (eng w)) @
        [New (length (filter isNew (trace w)))
           \<lparr>opt_style = styleXML (eng w), opt_format = format',
            opt_localeOverride = (if overrideLocale (eng w) then Some (engineLocale (eng w)) else None)\<rparr>] @
        concat (map (clusterCalls (length (filter isNew (trace w))) (sys (eng w))) citations) @
        [Call (length (filter isNew (trace w)))
           (SetClusterOrder (map (\<lambda>c. clusterOrderEntry (citationPair c)) citations))] @
        referenceCalls (length (filter isNew (trace w))) (sys (eng w)) uncitedIDs @
        [Call (length (filter isNew (trace w)))
           (IncludeUncited (map (referenceID (sys (eng w))) uncitedIDs))]\<rparr>) \<and>
    snd (updateUncitedItems D uncitedIDs
          (w\<lparr>eng := (eng w)\<lparr>driver := Some (length (filter isNew (trace w)))\<rparr>, trace := []\<rparr>)) =
      w\<lparr>eng := (eng w)\<lparr>driver := Some (length (filter isNew (trace w)))\<rparr>,
        trace := referenceCalls (length (filter isNew (trace w))) (sys (eng w)) uncitedIDs @
          [Call (length (filter isNew (trace w)))
             (IncludeUncited (map (referenceID (sys (eng w))) uncitedIDs))]\<rparr>"
proof -
  define h where "h = length (filter isNew (trace w))"
  define s where "s = sys (eng w)"
  define w0 where "w0 = w\<lparr>eng := (eng w)\<lparr>format := format'\<rparr>\<rparr>"
  define w1 where "w1 = w0\<lparr>trace := trace w0 @ releaseCalls (driver (eng w0)) @
      [New (length (filter isNew (trace w0))) (driverOptions (eng w0))],
    eng := (eng w0)\<lparr>driver := Some (length (filter isNew (trace w0)))\<rparr>\<rparr>"
  define w2 where "w2 = w1\<lparr>trace := trace w1 @ concat (map (clusterCalls h s) citations)\<rparr>"
  define w3 where "w3 = w2\<lparr>trace := trace w2 @
      [Call h (SetClusterOrder (map (\<lambda>c. clusterOrderEntry (citationPair c)) citations))]\<rparr>"
  define w4 where "w4 = w3\<lparr>trace := trace w3 @ referenceCalls h s uncitedIDs @
      [Call h (IncludeUncited (map (referenceID s) uncitedIDs))]\<rparr>"
  have reset: "resetDriver D w0 = (Inr (), w1)"
    unfolding w1_def by (rule resetDriver_quiet [OF quiet])
  have live1: "driver (eng w1) = Some h" and sys1: "sys (eng w1) = s"
    by (simp_all add: w1_def w0_def h_def s_def)
  have clusters: "insertClusters D citations w1 = (Inr (), w2)"
    unfolding w2_def using insertClusters_quiet [OF live1 quiet, of citations] cited
    by (simp add: sys1 s_def)
  have live2: "driver (eng w2) = Some h" and sys2: "sys (eng w2) = s"
    using live1 sys1 by (simp_all add: w2_def)
  have pairs: "map clusterOrderEntry
      (map (\<lambda>citation. (citationID citation, getProp (properties citation) ''noteIndex'')) citations) =
      map (\<lambda>c. clusterOrderEntry (citationPair c)) citations"
    by (simp add: citationPair_def)
  have order: "setClusterOrder D
      (map (\<lambda>citation. (citationID citation, getProp (properties citation) ''noteIndex'')) citations) w2 =
      (Inr (), w3)"
    unfolding w3_def setClusterOrder_def getClusterOrder_map pairs
    by (rule driverCall_quiet [OF live2 quiet])
  have live3: "driver (eng w3) = Some h" and sys3: "sys (eng w3) = s"
    using live2 sys2 by (simp_all add: w3_def)
  have unc: "updateUncitedItems D uncitedIDs w3 = (Inr (), w4)"
    unfolding w4_def using updateUncitedItems_quiet [OF live3 quiet, of uncitedIDs] uncited
    by (simp add: sys3 s_def)
  have run: "rebuildProcessorState D citations format' uncitedIDs w = (Inr (), w4)"
    by (simp add: rebuildProcessorState_def thenDo_def w0_def [symmetric] reset clusters order unc)
  have final: "w4 =
     \<lparr>eng = (eng w)\<lparr>format := format', driver := Some h\<rparr>,
      trace = trace w @ releaseCalls (driver (eng w)) @
        [New h \<lparr>opt_style = styleXML (eng w), opt_format = format',
            opt_localeOverride = (if overrideLocale (eng w) then Some (engineLocale (eng w)) else None)\<rparr>] @
        concat (map (clusterCalls h s) citations) @
        [Call h (SetClusterOrder (map (\<lambda>c. clusterOrderEntry (citationPair c)) citations))] @
        referenceCalls h s uncitedIDs @
        [Call h (IncludeUncited (map (referenceID s) uncitedIDs))]\<rparr>"
    by (simp add: w4_def w3_def w2_def w1_def w0_def h_def driverOptions_def)
  let ?v = "w\<lparr>eng := (eng w)\<lparr>driver := Some h\<rparr>, trace := []\<rparr>"
  have livev: "driver (eng ?v) = Some h"
    by simp
  have alone: "snd (updateUncitedItems D uncitedIDs ?v) =
      w\<lparr>eng := (eng w)\<lparr>driver := Some h\<rparr>,
        trace := referenceCalls h s uncitedIDs @ [Call h (IncludeUncited (map (referenceID s) uncitedIDs))]\<rparr>"
    using updateUncitedItems_quiet [OF livev quiet, of uncitedIDs] uncited
    by (simp add: s_def)
  show ?thesis
    using run final alone unfolding h_def s_def by simp
qed

theorem rebuildProcessorState_sequence_witness:
  "fst (rebuildProcessorState quietDriver [exampleCitation] ''text'' [JNum 9] exampleWorld) = Inr () \<and>
   format (eng (snd (rebuildProcessorState quietDriver [exampleCitation] ''text'' [JNum 9] exampleWorld))) = ''text'' \<and>
   driver (eng (snd (rebuildProcessorState quietDriver [exampleCitation] ''text'' [JNum 9] exampleWorld))) = Some 1 \<and>
   trace (snd (rebuildProcessorState quietDriver [exampleCitation] ''text'' [JNum 9] exampleWorld)) =
     [New 0 exampleOptions,
      Call 0 Free,
      New 1 \<lparr>opt_style = ''<style/>'', opt_format = ''text'', opt_localeOverride = None\<rparr>,
      Call 1 (InsertReference [(''id'', JStr ''7''), (''type'', JStr ''book'')]),
      Call 1 (InsertReference [(''id'', JStr ''8''), (''type'', JStr ''book'')]),
      Call 1 (InsertCluster
        \<lparr>cluster_id = Some (JStr ''c1''),
         cites = [[(''id'', JStr ''7''), (''locator'', JStr ''12''), (''locators'', JUndefined),
                   (''mode'', JStr ''SuppressAuthor'')],
                  [(''id'', JStr ''8''), (''locator'', JUndefined), (''locators'', JUndefined),
                   (''mode'', JStr ''AuthorOnly''), (''prefix'', JStr ''see '')]]\<rparr>),
      Call 1 (SetClusterOrder [\<lparr>order_id = Some (JStr ''c1''), order_note = Some (JNum 3)\<rparr>]),
      Call 1 (InsertReference [(''id'', JStr ''9''), (''type'', JStr ''book'')]),
      Call 1 (IncludeUncited [JStr ''9''])]"
proof -
  have quiet: "\<And>t ev. raises quietDriver t ev = None"
    by (simp add: quietDriver_def)
  have cited: "\<forall>c \<in> set [exampleCitation]. \<forall>citationItem \<in> set (citationItems c).
      resolved (sys (eng exampleWorld)) (getProp citationItem ''id'')"
    by (simp add: exampleCitation_def exampleWorld_def exampleSystem_def resolved_def getProp_def)
  have uncited: "\<forall>itemID \<in> set [JNum 9]. resolved (sys (eng exampleWorld)) itemID"
    by (simp add: exampleWorld_def exampleSystem_def resolved_def)
  note run = rebuildProcessorState_sequence [OF quiet cited uncited, of "''text''", THEN conjunct1]
  show ?thesis
    unfolding run by code_simp
qed

text \<open>
  C5. With a live driver that throws on no call, \<^verbatim>\<open>makeBibliography\<close> returns a metadata
  object in which \<^verbatim>\<open>maxoffset\<close>, \<^verbatim>\<open>linespacing\<close>, \<^verbatim>\<open>entryspacing\<close>, \<^verbatim>\<open>hangingindent\<close> and
  \<^verbatim>\<open>second-field-align\<close> have the values of the driver's \<^verbatim>\<open>maxOffset\<close>, \<^verbatim>\<open>lineSpacing\<close>,
  \<^verbatim>\<open>entrySpacing\<close>, \<^verbatim>\<open>hangingIndent\<close> and \<^verbatim>\<open>secondFieldAlign\<close>; \<^verbatim>\<open>bibstart\<close> and \<^verbatim>\<open>bibend\<close> are
  the \<^verbatim>\<open>markupPre\<close> and \<^verbatim>\<open>markupPost\<close> of the driver's \<^verbatim>\<open>formatMeta\<close>, and undefined when the
  driver's metadata has no \<^verbatim>\<open>formatMeta\<close>; and every field of the driver's metadata under a
  name of the driver's own, that is, a name that is not one of the seven names written,
  is in the result with its value. The driver's metadata \<open>m\<close> is an object: it lists no
  property twice.
\<close>

theorem makeBibliography_metadata:
  assumes live: "driver (eng w) = Some h"
    and quiet: "\<And>t ev. raises D t ev = None"
    and m: "m = bibliographyMetaResult D (trace w @ [Call h BibliographyMeta])"
    and object: "distinct (map fst m)"
  shows "\<exists>meta strings. fst (makeBibliography D w) = Inr (meta, strings) \<and>
      map_of meta ''maxoffset'' = Some (getProp m ''maxOffset'') \<and>
      map_of meta ''linespacing'' = Some (getProp m ''lineSpacing'') \<and>
      map_of meta ''entryspacing'' = Some (getProp m ''entrySpacing'') \<and>
      map_of meta ''hangingindent'' = Some (getProp m ''hangingIndent'') \<and>
      map_of meta ''second-field-align'' = Some (getProp m ''secondFieldAlign'') \<and>
      (\<forall>formatMeta. map_of m ''formatMeta'' = Some (JObj formatMeta) \<longrightarrow>
         map_of meta ''bibstart'' = Some (getProp formatMeta ''markupPre'') \<and>
         map_of meta ''bibend'' = Some (getProp formatMeta ''markupPost'')) \<and>
      (map_of m ''formatMeta'' = None \<longrightarrow>
         map_of meta ''bibstart'' = Some JUndefined \<and> map_of meta ''bibend'' = Some JUndefined) \<and>
      (\<forall>key v. map_of m key = Some v \<longrightarrow> key \<notin> set legacyNames \<longrightarrow> map_of meta key = Some v)"
proof -
  define ids where "ids = JArr (map (\<lambda>entry. JArr [JStr (entry_id entry)])
      (makeBibliographyResult D (trace w @ [Call h BibliographyMeta, Call h MakeBibliography])))"
  define meta where "meta = assign [(''entry_ids'', ids)] (translateMeta m)"
  have "\<exists>strings. fst (makeBibliography D w) = Inr (meta, strings)"
    using makeBibliography_quiet [OF live quiet] by (simp add: meta_def ids_def m)
  then obtain strings where result: "fst (makeBibliography D w) = Inr (meta, strings)" ..
  have look: "map_of meta key = Some v" if "map_of (translateMeta m) key = Some v" for key v
    using that by (simp add: meta_def map_of_returned_meta [OF object] map_add_def)
  have present: "map_of meta ''bibstart'' = Some (getProp formatMeta ''markupPre'') \<and>
      map_of meta ''bibend'' = Some (getProp formatMeta ''markupPost'')"
    if "map_of m ''formatMeta'' = Some (JObj formatMeta)" for formatMeta
  proof -
    have "getProp m ''formatMeta'' = JObj formatMeta"
      using that by (simp add: getProp_def)
    then show ?thesis
      using translateMeta_legacy(6,7) [of m] by (simp add: look andMember_def)
  qed
  have absent: "map_of meta ''bibstart'' = Some JUndefined \<and> map_of meta ''bibend'' = Some JUndefined"
    if "map_of m ''formatMeta'' = None"
  proof -
    have "getProp m ''formatMeta'' = JUndefined"
      using that by (simp add: getProp_def)
    then show ?thesis
      using translateMeta_legacy(6,7) [of m] by (simp add: look andMember_def)
  qed
  have retained: "map_of meta key = Some v"
    if "map_of m key = Some v" and "key \<notin> set legacyNames" for key v
    using that by (intro look) (simp add: translateMeta_retains)
  show ?thesis
  proof (intro exI [of _ meta] exI [of _ strings] conjI allI impI)
    show "fst (makeBibliography D w) = Inr (meta, strings)"
      by (rule result)
    show "map_of meta ''maxoffset'' = Some (getProp m ''maxOffset'')"
      by (rule look [OF translateMeta_legacy(1)])
    show "map_of meta ''linespacing'' = Some (getProp m ''lineSpacing'')"
      by (rule look [OF translateMeta_legacy(2)])
    show "map_of meta ''entryspacing'' = Some (getProp m ''entrySpacing'')"
      by (rule look [OF translateMeta_legacy(3)])
    show "map_of meta ''hangingindent'' = Some (getProp m ''hangingIndent'')"
      by (rule look [OF translateMeta_legacy(4)])
    show "map_of meta ''second-field-align'' = Some (getProp m ''secondFieldAlign'')"
      by (rule look [OF translateMeta_legacy(5)])
  next
    fix formatMeta
    assume "map_of m ''formatMeta'' = Some (JObj formatMeta)"
    from present [OF this]
    show "map_of meta ''bibstart'' = Some (getProp formatMeta ''markupPre'')"
      and "map_of meta ''bibend'' = Some (getProp formatMeta ''markupPost'')"
      by simp_all
  next
    assume "map_of m ''formatMeta'' = None"
    from absent [OF this]
    show "map_of meta ''bibstart'' = Some JUndefined" and "map_of meta ''bibend'' = Some JUndefined"
      by simp_all
  next
    fix key v
    assume "map_of m key = Some v" and "key \<notin> set legacyNames"
    then show "map_of meta key = Some v"
      by (rule retained)
  qed
qed

theorem makeBibliography_metadata_witness:
  "\<exists>meta strings. fst (makeBibliography quietDriver exampleWorld) = Inr (meta, strings) \<and>
      map_of meta ''maxoffset'' = Some (JNum 2) \<and>
      map_of meta ''linespacing'' = Some (JNum 1) \<and>
      map_of meta ''entryspacing'' = Some (JNum 0) \<and>
      map_of meta ''hangingindent'' = Some (JBool True) \<and>
      map_of meta ''second-field-align'' = Some (JBool False) \<and>
      map_of meta ''bibstart'' = Some (JStr ''<div>'') \<and>
      map_of meta ''bibend'' = Some (JStr ''</div>'') \<and>
      map_of meta ''maxOffset'' = Some (JNum 2) \<and>
      map_of meta ''secondFieldAlign'' = Some (JBool False)"
proof -
  have live: "driver (eng exampleWorld) = Some 0"
    by (simp add: exampleWorld_def)
  have quiet: "\<And>t ev. raises quietDriver t ev = None"
    by (simp add: quietDriver_def)
  have m: "exampleMeta = bibliographyMetaResult quietDriver (trace exampleWorld @ [Call 0 BibliographyMeta])"
    by (simp add: quietDriver_def)
  have object: "distinct (map fst exampleMeta)"
    by (simp add: exampleMeta_def)
  have fields: "getProp exampleMeta ''maxOffset'' = JNum 2"
    "getProp exampleMeta ''lineSpacing'' = JNum 1"
    "getProp exampleMeta ''entrySpacing'' = JNum 0"
    "getProp exampleMeta ''hangingIndent'' = JBool True"
    "getProp exampleMeta ''secondFieldAlign'' = JBool False"
    by (simp_all add: getProp_def exampleMeta_def)
  have fm: "map_of exampleMeta ''formatMeta'' =
      Some (JObj [(''markupPre'', JStr ''<div>''), (''markupPost'', JStr ''</div>'')])"
    by (simp add: exampleMeta_def)
  have own: "map_of exampleMeta ''maxOffset'' = Some (JNum 2)"
    "map_of exampleMeta ''secondFieldAlign'' = Some (JBool False)"
    "''maxOffset'' \<notin> set legacyNames" "''secondFieldAlign'' \<notin> set legacyNames"
    by (simp_all add: exampleMeta_def legacyNames_def)
  from makeBibliography_metadata [OF live quiet m object]
  obtain meta strings where r: "fst (makeBibliography quietDriver exampleWorld) = Inr (meta, strings)"
    and legacy: "map_of meta ''maxoffset'' = Some (getProp exampleMeta ''maxOffset'')"
      "map_of meta ''linespacing'' = Some (getProp exampleMeta ''lineSpacing'')"
      "map_of meta ''entryspacing'' = Some (getProp exampleMeta ''entrySpacing'')"
      "map_of meta ''hangingindent'' = Some (getProp exampleMeta ''hangingIndent'')"
      "map_of meta ''second-field-align'' = Some (getProp exampleMeta ''secondFieldAlign'')"
    and present: "\<forall>formatMeta. map_of exampleMeta ''formatMeta'' = Some (JObj formatMeta) \<longrightarrow>
         map_of meta ''bibstart'' = Some (getProp formatMeta ''markupPre'') \<and>
         map_of meta ''bibend'' = Some (getProp formatMeta ''markupPost'')"
    and retained: "\<forall>key v. map_of exampleMeta key = Some v \<longrightarrow> key \<notin> set legacyNames \<longrightarrow>
         map_of meta key = Some v"
    by blast
  have wrap: "map_of meta ''bibstart'' = Some (JStr ''<div>'')"
    "map_of meta ''bibend'' = Some (JStr ''</div>'')"
    using present fm by (simp_all add: getProp_def)
  have kept: "map_of meta ''maxOffset'' = Some (JNum 2)"
    "map_of meta ''secondFieldAlign'' = Some (JBool False)"
    using retained own by blast+
  show ?thesis
    using r legacy wrap kept unfolding fields by blast
qed

text \<open>
  C6. With a live driver that throws on no call, \<^verbatim>\<open>makeBibliography\<close> returns one string for
  each entry the driver returned, in the driver's order: the entry's value between
  \<^verbatim>\<open><div class="csl-entry">\<close> and \<^verbatim>\<open></div>\<close> when the session's format is \<^verbatim>\<open>html\<close>, the value
  followed by a line feed when it is \<^verbatim>\<open>plain\<close>, and the value itself for every other
  format. The metadata returned has \<^verbatim>\<open>entry_ids\<close>, the array with, for each entry in
  order, the array of that entry's identifier alone. The driver's metadata is an object
  (no property twice) and has no field of its own named \<^verbatim>\<open>entry_ids\<close>.
\<close>

theorem makeBibliography_entries:
  assumes live: "driver (eng w) = Some h"
    and quiet: "\<And>t ev. raises D t ev = None"
    and m: "m = bibliographyMetaResult D (trace w @ [Call h BibliographyMeta])"
    and object: "distinct (map fst m)"
    and own: "map_of m ''entry_ids'' = None"
    and entries: "entries =
        makeBibliographyResult D (trace w @ [Call h BibliographyMeta, Call h MakeBibliography])"
  shows "\<exists>meta strings. fst (makeBibliography D w) = Inr (meta, strings) \<and>
      length strings = length entries \<and>
      strings =
        map (\<lambda>entry.
               if format (eng w) = ''html''
               then ''<div class='' @ [CHR 0x22] @ ''csl-entry'' @ [CHR 0x22] @ ''>'' @
                    entry_value entry @ ''</div>''
               else if format (eng w) = ''plain'' then entry_value entry @ [CHR 0x0A]
               else entry_value entry)
          entries \<and>
      map_of meta ''entry_ids'' = Some (JArr (map (\<lambda>entry. JArr [JStr (entry_id entry)]) entries))"
proof -
  define ids where "ids = JArr (map (\<lambda>entry. JArr [JStr (entry_id entry)]) entries)"
  define meta where "meta = assign [(''entry_ids'', ids)] (translateMeta m)"
  define strings where "strings = formatEntries (format (eng w)) entries"
  have result: "fst (makeBibliography D w) = Inr (meta, strings)"
    using makeBibliography_quiet [OF live quiet]
    by (simp add: meta_def ids_def strings_def m entries)
  have wrapped: "strings =
        map (\<lambda>entry.
               if format (eng w) = ''html''
               then ''<div class='' @ [CHR 0x22] @ ''csl-entry'' @ [CHR 0x22] @ ''>'' @
                    entry_value entry @ ''</div>''
               else if format (eng w) = ''plain'' then entry_value entry @ [CHR 0x0A]
               else entry_value entry)
          entries"
    by (simp add: strings_def formatEntries_def cslEntryOpen_def)
  have len: "length strings = length entries"
    unfolding wrapped by simp
  have "map_of (translateMeta m) ''entry_ids'' = None"
    using own by (simp add: translateMeta_entry_ids)
  then have ids: "map_of meta ''entry_ids'' = Some ids"
    by (simp add: meta_def map_of_returned_meta [OF object] map_add_def)
  show ?thesis
    using result len wrapped ids unfolding ids_def
    by (intro exI [of _ meta] exI [of _ strings]) simp
qed

theorem makeBibliography_entries_witness:
  "\<exists>meta strings. fst (makeBibliography quietDriver exampleWorld) = Inr (meta, strings) \<and>
      strings = [''<div class='' @ [CHR 0x22] @ ''csl-entry'' @ [CHR 0x22] @ ''>X</div>'',
                 ''<div class='' @ [CHR 0x22] @ ''csl-entry'' @ [CHR 0x22] @ ''>Y</div>''] \<and>
      map_of meta ''entry_ids'' = Some (JArr [JArr [JStr ''a''], JArr [JStr ''b'']])"
proof -
  have live: "driver (eng exampleWorld) = Some 0"
    by (simp add: exampleWorld_def)
  have quiet: "\<And>t ev. raises quietDriver t ev = None"
    by (simp add: quietDriver_def)
  have m: "exampleMeta = bibliographyMetaResult quietDriver (trace exampleWorld @ [Call 0 BibliographyMeta])"
    by (simp add: quietDriver_def)
  have object: "distinct (map fst exampleMeta)"
    by (simp add: exampleMeta_def)
  have own: "map_of exampleMeta ''entry_ids'' = None"
    by (simp add: exampleMeta_def)
  have entries: "[\<lparr>entry_id = ''a'', entry_value = ''X''\<rparr>, \<lparr>entry_id = ''b'', entry_value = ''Y''\<rparr>] =
      makeBibliographyResult quietDriver
        (trace exampleWorld @ [Call 0 BibliographyMeta, Call 0 MakeBibliography])"
    by (simp add: quietDriver_def)
  have html: "format (eng exampleWorld) = ''html''"
    by (simp add: exampleWorld_def)
  from makeBibliography_entries [OF live quiet m object own entries]
  show ?thesis
    by (simp add: html)
qed

text \<open>
  C7. \<^verbatim>\<open>setOutputFormat\<close> compares the session's format with the new one after \<^verbatim>\<open>text\<close> is
  replaced by \<^verbatim>\<open>plain\<close>. When they are equal the call changes nothing and issues no call.
  When they differ and the session holds a handle, the session's format becomes the new
  one and exactly one \<^verbatim>\<open>setOutputFormat\<close> call goes to that handle, which the session keeps.
  After a call, a second call with a format that normalizes to the same one changes
  nothing and issues no call.
\<close>

theorem setOutputFormat_switch:
  "(format (eng w) = (if format0 = ''text'' then ''plain'' else format0) \<longrightarrow>
      setOutputFormat D format0 w = (Inr (), w)) \<and>
   (format (eng w) \<noteq> (if format0 = ''text'' then ''plain'' else format0) \<longrightarrow>
    driver (eng w) = Some h \<longrightarrow>
      snd (setOutputFormat D format0 w) =
        w\<lparr>eng := (eng w)\<lparr>format := (if format0 = ''text'' then ''plain'' else format0)\<rparr>,
          trace := trace w @
            [Call h (SetOutputFormat (if format0 = ''text'' then ''plain'' else format0))]\<rparr>) \<and>
   ((if format1 = ''text'' then ''plain'' else format1) =
    (if format0 = ''text'' then ''plain'' else format0) \<longrightarrow>
      setOutputFormat D format1 (snd (setOutputFormat D format0 w)) =
        (Inr (), snd (setOutputFormat D format0 w)))"
proof -
  let ?f = "if format0 = ''text'' then ''plain'' else format0"
  have same: "setOutputFormat D format0 w = (Inr (), w)" if "format (eng w) = ?f"
    using that by (simp add: setOutputFormat_def Let_def)
  have differ: "snd (setOutputFormat D format0 w) =
      w\<lparr>eng := (eng w)\<lparr>format := ?f\<rparr>, trace := trace w @ [Call h (SetOutputFormat ?f)]\<rparr>"
    if "format (eng w) \<noteq> ?f" and "driver (eng w) = Some h"
    using that by (simp add: setOutputFormat_def driverCall_def Let_def split: option.splits)
  have after: "format (eng (snd (setOutputFormat D format0 w))) = ?f"
    by (simp add: setOutputFormat_def Let_def driverCall_eng)
  have again: "setOutputFormat D format1 (snd (setOutputFormat D format0 w)) =
      (Inr (), snd (setOutputFormat D format0 w))"
    if "(if format1 = ''text'' then ''plain'' else format1) = ?f"
    using that after by (simp add: setOutputFormat_def [of D format1] Let_def)
  show ?thesis
    using same differ again by blast
qed

theorem setOutputFormat_switch_witness:
  "setOutputFormat quietDriver ''html'' exampleWorld = (Inr (), exampleWorld) \<and>
   snd (setOutputFormat quietDriver ''text'' exampleWorld) =
     exampleWorld\<lparr>eng := (eng exampleWorld)\<lparr>format := ''plain''\<rparr>,
       trace := trace exampleWorld @ [Call 0 (SetOutputFormat ''plain'')]\<rparr> \<and>
   setOutputFormat quietDriver ''plain'' (snd (setOutputFormat quietDriver ''text'' exampleWorld)) =
     (Inr (), snd (setOutputFormat quietDriver ''text'' exampleWorld))"
proof -
  have fmt: "format (eng exampleWorld) = ''html''" and live: "driver (eng exampleWorld) = Some 0"
    by (simp_all add: exampleWorld_def)
  have same: "setOutputFormat quietDriver ''html'' exampleWorld = (Inr (), exampleWorld)"
    using setOutputFormat_switch [of exampleWorld "''html''" quietDriver 0 "''html''"] fmt
    by simp
  note switch = setOutputFormat_switch [of exampleWorld "''text''" quietDriver 0 "''plain''"]
  have differ: "snd (setOutputFormat quietDriver ''text'' exampleWorld) =
     exampleWorld\<lparr>eng := (eng exampleWorld)\<lparr>format := ''plain''\<rparr>,
       trace := trace exampleWorld @ [Call 0 (SetOutputFormat ''plain'')]\<rparr>"
    using switch fmt live by simp
  have again: "setOutputFormat quietDriver ''plain'' (snd (setOutputFormat quietDriver ''text'' exampleWorld)) =
     (Inr (), snd (setOutputFormat quietDriver ''text'' exampleWorld))"
    using switch by simp
  show ?thesis
    using same differ again by blast
qed

text \<open>
  C8, as the code has it. When the session holds a handle, \<^verbatim>\<open>free(ignoreErrors)\<close> issues
  one \<^verbatim>\<open>free\<close> call to it; an error the call throws is swallowed when \<^verbatim>\<open>ignoreErrors\<close> is
  true and comes out of \<^verbatim>\<open>free\<close> when it is false. Whatever the outcome, no field of the
  session changes: the session records no failure and still holds the handle, and the
  next call on the driver goes to that same handle.
\<close>

theorem free_outcome:
  assumes live: "driver (eng w) = Some h"
  shows "fst (free D ignoreErrors w) =
      (case raises D (trace w) (Call h Free) of
         None \<Rightarrow> Inr ()
       | Some e \<Rightarrow> if ignoreErrors then Inr () else Inl e) \<and>
    snd (free D ignoreErrors w) = w\<lparr>trace := trace w @ [Call h Free]\<rparr> \<and>
    eng (snd (free D ignoreErrors w)) = eng w \<and>
    trace (snd (driverCall D c (snd (free D ignoreErrors w)))) = trace w @ [Call h Free, Call h c]"
proof -
  have run: "free D ignoreErrors w =
      ((case raises D (trace w) (Call h Free) of
          None \<Rightarrow> Inr ()
        | Some e \<Rightarrow> if ignoreErrors then Inr () else Inl e),
       w\<lparr>trace := trace w @ [Call h Free]\<rparr>)"
    using live by (simp add: free_def driverCall_def Let_def split: option.splits)
  have next_call: "trace (snd (driverCall D c (w\<lparr>trace := trace w @ [Call h Free]\<rparr>))) =
      trace w @ [Call h Free, Call h c]"
    using live by (simp add: driverCall_trace)
  show ?thesis
    unfolding run using next_call by simp
qed

theorem free_outcome_witness:
  "fst (free failingFreeDriver True exampleWorld) = Inr () \<and>
   fst (free failingFreeDriver False exampleWorld) = Inl (Thrown ''free failed'') \<and>
   snd (free failingFreeDriver False exampleWorld) =
     exampleWorld\<lparr>trace := trace exampleWorld @ [Call 0 Free]\<rparr> \<and>
   eng (snd (free failingFreeDriver False exampleWorld)) = eng exampleWorld"
proof -
  have live: "driver (eng exampleWorld) = Some 0"
    by (simp add: exampleWorld_def)
  have throws: "raises failingFreeDriver (trace exampleWorld) (Call 0 Free) = Some (Thrown ''free failed'')"
    by (simp add: failingFreeDriver_def)
  show ?thesis
    using free_outcome [OF live, of failingFreeDriver True]
      free_outcome [OF live, of failingFreeDriver False]
    by (simp add: throws)
qed

text \<open>
  C8 as stated fails in its second part: after \<^verbatim>\<open>free(false)\<close> has thrown, the session of
  the example has the fields it had before, still holds handle 0, and a following
  \<^verbatim>\<open>setOutputFormat\<close> returns normally and reaches that handle.
\<close>

theorem free_records_no_failure:
  "fst (free failingFreeDriver False exampleWorld) = Inl (Thrown ''free failed'') \<and>
   eng (snd (free failingFreeDriver False exampleWorld)) = eng exampleWorld \<and>
   driver (eng (snd (free failingFreeDriver False exampleWorld))) = Some 0 \<and>
   fst (setOutputFormat failingFreeDriver ''rtf'' (snd (free failingFreeDriver False exampleWorld))) =
     Inr () \<and>
   trace (snd (setOutputFormat failingFreeDriver ''rtf''
      (snd (free failingFreeDriver False exampleWorld)))) =
     [New 0 exampleOptions, Call 0 Free, Call 0 (SetOutputFormat ''rtf'')]"
  by (simp add: free_def setOutputFormat_def driverCall_def Let_def failingFreeDriver_def
      exampleWorld_def)

text \<open>
  C9. With a live driver that throws on no call and a provider that returns a record for
  every identifier, \<^verbatim>\<open>updateUncitedItems\<close> returns normally and issues, for each identifier
  in order, the registration of the provider's record with its \<^verbatim>\<open>id\<close> in string form, and
  then one \<^verbatim>\<open>includeUncited\<close> call whose specific list is those string identifiers, in
  order: the list is made from the identifiers of this call alone, whatever was configured
  by the calls before. \<^verbatim>\<open>updateItems\<close> does the same on every input.
\<close>

theorem updateUncitedItems_registers:
  assumes live: "driver (eng w) = Some h"
    and quiet: "\<And>t ev. raises D t ev = None"
    and found: "\<forall>itemID \<in> set itemIDs. resolved (sys (eng w)) itemID"
  shows "updateUncitedItems D itemIDs w =
      (Inr (),
       w\<lparr>trace := trace w @
            map (\<lambda>itemID. Call h (InsertReference (referenceOf (sys (eng w)) itemID))) itemIDs @
            [Call h (IncludeUncited (map (referenceID (sys (eng w))) itemIDs))]\<rparr>) \<and>
    (\<forall>itemID \<in> set itemIDs. \<exists>item.
       retrieveItem (sys (eng w)) itemID = Inr item \<and>
       referenceOf (sys (eng w)) itemID = setProp item ''id'' (JStr (toString (getProp item ''id''))) \<and>
       referenceID (sys (eng w)) itemID = JStr (toString (getProp item ''id''))) \<and>
    updateItems D itemIDs w = updateUncitedItems D itemIDs w"
proof -
  have run: "updateUncitedItems D itemIDs w =
      (Inr (),
       w\<lparr>trace := trace w @
            map (\<lambda>itemID. Call h (InsertReference (referenceOf (sys (eng w)) itemID))) itemIDs @
            [Call h (IncludeUncited (map (referenceID (sys (eng w))) itemIDs))]\<rparr>)"
    using updateUncitedItems_quiet [OF live quiet found] by (simp add: referenceCalls_def)
  have each: "\<exists>item. retrieveItem (sys (eng w)) itemID = Inr item \<and>
       referenceOf (sys (eng w)) itemID = setProp item ''id'' (JStr (toString (getProp item ''id''))) \<and>
       referenceID (sys (eng w)) itemID = JStr (toString (getProp item ''id''))"
    if "itemID \<in> set itemIDs" for itemID
  proof -
    from found that obtain item where item: "retrieveItem (sys (eng w)) itemID = Inr item"
      by (cases "retrieveItem (sys (eng w)) itemID") (auto simp: resolved_def)
    show ?thesis
      using item referenceOf_resolved [OF item] by (simp add: stringifyId_def)
  qed
  show ?thesis
    using run each by (simp add: updateItems_def)
qed

theorem updateUncitedItems_registers_witness:
  "fst (updateUncitedItems quietDriver [JNum 9, JNum 5] uncitedWorld) = Inr () \<and>
   trace (snd (updateUncitedItems quietDriver [JNum 9, JNum 5] uncitedWorld)) =
     [New 0 exampleOptions,
      Call 0 (IncludeUncited [JStr ''1'']),
      Call 0 (InsertReference [(''id'', JStr ''9''), (''type'', JStr ''book'')]),
      Call 0 (InsertReference [(''id'', JStr ''5''), (''type'', JStr ''book'')]),
      Call 0 (IncludeUncited [JStr ''9'', JStr ''5''])] \<and>
   updateItems quietDriver [JNum 9, JNum 5] uncitedWorld =
     updateUncitedItems quietDriver [JNum 9, JNum 5] uncitedWorld"
proof -
  have live: "driver (eng uncitedWorld) = Some 0"
    by (simp add: uncitedWorld_def exampleWorld_def)
  have quiet: "\<And>t ev. raises quietDriver t ev = None"
    by (simp add: quietDriver_def)
  have found: "\<forall>itemID \<in> set [JNum 9, JNum 5]. resolved (sys (eng uncitedWorld)) itemID"
    by (simp add: uncitedWorld_def exampleWorld_def exampleSystem_def resolved_def)
  have nine: "decimal 9 = ''9''" and five: "decimal 5 = ''5''"
    by code_simp+
  have refs: "referenceOf exampleSystem (JNum 9) = [(''id'', JStr ''9''), (''type'', JStr ''book'')]"
    "referenceOf exampleSystem (JNum 5) = [(''id'', JStr ''5''), (''type'', JStr ''book'')]"
    by (simp_all add: referenceOf_def exampleSystem_def stringifyId_def setProp_def getProp_def nine five)
  have ids: "referenceID exampleSystem (JNum 9) = JStr ''9''"
    "referenceID exampleSystem (JNum 5) = JStr ''5''"
    by (simp_all add: referenceID_def refs getProp_def)
  have s: "sys (eng uncitedWorld) = exampleSystem"
    and t: "trace uncitedWorld = [New 0 exampleOptions, Call 0 (IncludeUncited [JStr ''1''])]"
    by (simp_all add: uncitedWorld_def exampleWorld_def)
  show ?thesis
    using updateUncitedItems_registers [OF live quiet found]
    by (simp add: s t refs ids)
qed

text \<open>
  C10. With a live driver that throws on no call and a provider that returns a record for
  every cited item, \<^verbatim>\<open>appendCitationCluster\<close> issues the calls of \<^verbatim>\<open>insertCluster\<close> (the
  registration of each cited reference, then the insertion of the cluster under the
  citation's \<^verbatim>\<open>citationID\<close> as it is) and then the \<^verbatim>\<open>builtCluster\<close> query for that
  \<^verbatim>\<open>citationID\<close>, whose answer it returns. It issues nothing else (no cluster order is
  set), and the cluster's identifier is the citation's own even when that is undefined.
\<close>

theorem appendCitationCluster_inserts:
  assumes live: "driver (eng w) = Some h"
    and quiet: "\<And>t ev. raises D t ev = None"
    and found: "\<forall>citationItem \<in> set (citationItems c).
                  resolved (sys (eng w)) (getProp citationItem ''id'')"
  shows "snd (insertCluster D c w) =
      w\<lparr>trace := trace w @
           map (\<lambda>itemID. Call h (InsertReference (referenceOf (sys (eng w)) itemID))) (citedIDs c) @
           [Call h (InsertCluster
              \<lparr>cluster_id = Some (citationID c),
               cites = map (citeOf (sys (eng w))) (citationItems c)\<rparr>)]\<rparr> \<and>
    snd (appendCitationCluster D c w) =
      (snd (insertCluster D c w))
        \<lparr>trace := trace (snd (insertCluster D c w)) @ [Call h (BuiltCluster (citationID c))]\<rparr> \<and>
    fst (appendCitationCluster D c w) =
      Inr (builtClusterResult D (trace (snd (appendCitationCluster D c w))))"
proof -
  let ?w1 = "w\<lparr>trace := trace w @ clusterCalls h (sys (eng w)) c\<rparr>"
  have ins: "insertCluster D c w = (Inr (clusterOf (sys (eng w)) c), ?w1)"
    by (rule insertCluster_quiet [OF live quiet found])
  have live1: "driver (eng ?w1) = Some h"
    using live by simp
  have app: "appendCitationCluster D c w =
      (Inr (builtClusterResult D (trace ?w1 @ [Call h (BuiltCluster (citationID c))])),
       ?w1\<lparr>trace := trace ?w1 @ [Call h (BuiltCluster (citationID c))]\<rparr>)"
    by (simp add: appendCitationCluster_def thenDo_def ins driverCall_quiet [OF live1 quiet])
  show ?thesis
    unfolding ins app by (simp add: clusterCalls_def clusterOf_def referenceCalls_def)
qed

theorem appendCitationCluster_inserts_witness:
  "fst (appendCitationCluster quietDriver unnamedCitation exampleWorld) = Inr (JStr ''(Doe 2019)'') \<and>
   eng (snd (appendCitationCluster quietDriver unnamedCitation exampleWorld)) = eng exampleWorld \<and>
   trace (snd (appendCitationCluster quietDriver unnamedCitation exampleWorld)) =
     [New 0 exampleOptions,
      Call 0 (InsertReference [(''id'', JStr ''7''), (''type'', JStr ''book'')]),
      Call 0 (InsertReference [(''id'', JStr ''8''), (''type'', JStr ''book'')]),
      Call 0 (InsertCluster
        \<lparr>cluster_id = Some JUndefined,
         cites = [[(''id'', JStr ''7''), (''locator'', JStr ''12''), (''locators'', JUndefined),
                   (''mode'', JStr ''SuppressAuthor'')],
                  [(''id'', JStr ''8''), (''locator'', JUndefined), (''locators'', JUndefined),
                   (''mode'', JStr ''AuthorOnly''), (''prefix'', JStr ''see '')]]\<rparr>),
      Call 0 (BuiltCluster JUndefined)]"
proof -
  have live: "driver (eng exampleWorld) = Some 0"
    by (simp add: exampleWorld_def)
  have quiet: "\<And>t ev. raises quietDriver t ev = None"
    by (simp add: quietDriver_def)
  have found: "\<forall>citationItem \<in> set (citationItems unnamedCitation).
      resolved (sys (eng exampleWorld)) (getProp citationItem ''id'')"
    by (simp add: unnamedCitation_def exampleCitation_def exampleWorld_def exampleSystem_def
        resolved_def getProp_def)
  note facts = appendCitationCluster_inserts [OF live quiet found]
  have answer: "fst (appendCitationCluster quietDriver unnamedCitation exampleWorld) =
      Inr (JStr ''(Doe 2019)'')"
    unfolding facts [THEN conjunct2, THEN conjunct2]
    by (simp add: quietDriver_def)
  have session: "eng (snd (appendCitationCluster quietDriver unnamedCitation exampleWorld)) =
      eng exampleWorld"
    unfolding facts [THEN conjunct2, THEN conjunct1] facts [THEN conjunct1]
    by simp
  have calls: "trace (snd (appendCitationCluster quietDriver unnamedCitation exampleWorld)) =
     [New 0 exampleOptions,
      Call 0 (InsertReference [(''id'', JStr ''7''), (''type'', JStr ''book'')]),
      Call 0 (InsertReference [(''id'', JStr ''8''), (''type'', JStr ''book'')]),
      Call 0 (InsertCluster
        \<lparr>cluster_id = Some JUndefined,
         cites = [[(''id'', JStr ''7''), (''locator'', JStr ''12''), (''locators'', JUndefined),
                   (''mode'', JStr ''SuppressAuthor'')],
                  [(''id'', JStr ''8''), (''locator'', JUndefined), (''locators'', JUndefined),
                   (''mode'', JStr ''AuthorOnly''), (''prefix'', JStr ''see '')]]\<rparr>),
      Call 0 (BuiltCluster JUndefined)]"
    unfolding facts [THEN conjunct2, THEN conjunct1] facts [THEN conjunct1]
    by code_simp
  show ?thesis
    using answer session calls by simp
qed

end
